theory Spec2Isabelle
  imports Complex_Main
begin

section \<open>JavaScript values and strings\<close>

text \<open>
  A number of the source language is a double: not-a-number, one of the two infinities, or
  a finite value, given here by the real it denotes. The finite doubles are some of the
  reals, so what holds for every real holds for every finite double. The sign of zero is
  not kept: no operation used here reads it.
\<close>

datatype number = NaN | NegInfinity | Finite real | Infinity

text \<open>\<^verbatim>\<open>a >= b\<close>: false as soon as one of the two is not a number.\<close>

fun js_ge :: "number \<Rightarrow> number \<Rightarrow> bool" where
  "js_ge NaN b = False"
| "js_ge a NaN = False"
| "js_ge Infinity b = True"
| "js_ge a NegInfinity = True"
| "js_ge NegInfinity b = False"
| "js_ge a Infinity = False"
| "js_ge (Finite x) (Finite y) = (y \<le> x)"

text \<open>\<^verbatim>\<open>Math.max(a, b)\<close>: not a number when one of the two is not, else the larger.\<close>

definition math_max :: "number \<Rightarrow> number \<Rightarrow> number" where
  "math_max a b = (if a = NaN \<or> b = NaN then NaN else if js_ge a b then a else b)"

text \<open>
  Strings are lists of code units. A \<^typ>\<open>char\<close> stands for a code unit below 256, so the
  development covers the strings made of Latin-1 code units; \<open>length\<close> is then the
  \<^verbatim>\<open>.length\<close> of the source string.

  A value of unknown shape (a tool result arrives as \<^verbatim>\<open>unknown\<close>, an optional field may be
  \<^verbatim>\<open>undefined\<close>) is a \<open>js_value\<close>. A property that an object does not have reads as
  \<open>JUndefined\<close>, as in the source language.
\<close>

datatype js_value =
    JUndefined
  | JNull
  | JBool bool
  | JNum number
  | JStr string
  | JArr "js_value list"
  | JObj "(string \<times> js_value) list"

text \<open>Truthiness, as \<^verbatim>\<open>!x\<close> and \<^verbatim>\<open>a || b\<close> read it.\<close>

fun truthy :: "js_value \<Rightarrow> bool" where
  "truthy JUndefined = False"
| "truthy JNull = False"
| "truthy (JBool b) = b"
| "truthy (JNum n) = (n \<noteq> NaN \<and> n \<noteq> Finite 0)"
| "truthy (JStr s) = (s \<noteq> [])"
| "truthy (JArr xs) = True"
| "truthy (JObj kvs) = True"

definition js_or :: "js_value \<Rightarrow> js_value \<Rightarrow> js_value" where
  "js_or a b = (if truthy a then a else b)"

text \<open>\<^verbatim>\<open>value.key\<close> for one of the fixed property names the code reads.\<close>

fun get_prop :: "js_value \<Rightarrow> string \<Rightarrow> js_value" where
  "get_prop (JObj kvs) k = (case map_of kvs k of Some v \<Rightarrow> v | None \<Rightarrow> JUndefined)"
| "get_prop v k = JUndefined"

subsection \<open>String operations of the source language\<close>

text \<open>
  White space as \<^verbatim>\<open>\s\<close> and \<^verbatim>\<open>trim()\<close> see it: tab, line feed, vertical tab, form feed,
  carriage return, space and the no-break space. Line terminators as \<^verbatim>\<open>^\<close> and \<^verbatim>\<open>$\<close> see
  them under the \<^verbatim>\<open>m\<close> flag: line feed and carriage return.
\<close>

definition is_space :: "char \<Rightarrow> bool" where
  "is_space c = (c \<in> set [CHR 0x09, CHR 0x0A, CHR 0x0B, CHR 0x0C, CHR 0x0D, CHR 0x20, CHR 0xA0])"

definition is_line_terminator :: "char \<Rightarrow> bool" where
  "is_line_terminator c = (c = CHR 0x0A \<or> c = CHR 0x0D)"

definition is_digit :: "char \<Rightarrow> bool" where
  "is_digit c = (c \<in> set ''0123456789'')"

definition is_lower_alnum :: "char \<Rightarrow> bool" where
  "is_lower_alnum c = (c \<in> set ''abcdefghijklmnopqrstuvwxyz0123456789'')"

definition trim :: "string \<Rightarrow> string" where
  "trim s = rev (dropWhile is_space (rev (dropWhile is_space s)))"

text \<open>\<^verbatim>\<open>toLowerCase()\<close>: A to Z, and the upper-case letters of Latin-1, move up by 32.\<close>

definition lower_char :: "char \<Rightarrow> char" where
  "lower_char c =
     (let n = (of_char c :: nat) in
      if (65 \<le> n \<and> n \<le> 90) \<or> (192 \<le> n \<and> n \<le> 214) \<or> (216 \<le> n \<and> n \<le> 222)
      then char_of (n + 32) else c)"

definition toLowerCase :: "string \<Rightarrow> string" where
  "toLowerCase s = map lower_char s"

definition startsWith :: "string \<Rightarrow> string \<Rightarrow> bool" where
  "startsWith s p = (take (length p) s = p)"

definition endsWith :: "string \<Rightarrow> string \<Rightarrow> bool" where
  "endsWith s p = (length p \<le> length s \<and> drop (length s - length p) s = p)"

text \<open>
  A regular expression without anchors is tested at every position of the text:
  \<open>exists_at P s\<close> holds when \<open>P\<close> accepts some suffix of \<open>s\<close>, \<open>P\<close> being the
  expression matched at the start of what it is given.
\<close>

fun exists_at :: "(string \<Rightarrow> bool) \<Rightarrow> string \<Rightarrow> bool" where
  "exists_at P [] = P []"
| "exists_at P (c # cs) = (P (c # cs) \<or> exists_at P cs)"

definition includesStr :: "string \<Rightarrow> string \<Rightarrow> bool" where
  "includesStr s p = exists_at (\<lambda>t. startsWith t p) s"

text \<open>\<^verbatim>\<open>s.split(c)\<close> for a one-character separator, and \<^verbatim>\<open>parts.join(sep)\<close>.\<close>

fun split_on :: "char \<Rightarrow> string \<Rightarrow> string list" where
  "split_on c [] = [[]]"
| "split_on c (x # xs) =
     (if x = c then [] # split_on c xs
      else (case split_on c xs of [] \<Rightarrow> [[x]] | l # ls \<Rightarrow> (x # l) # ls))"

fun join :: "string \<Rightarrow> string list \<Rightarrow> string" where
  "join sep [] = []"
| "join sep [x] = x"
| "join sep (x # y # ys) = x @ sep @ join sep (y # ys)"

text \<open>\<^verbatim>\<open>s.replaceAll("\r\n", "\n")\<close>.\<close>

fun crlf_to_lf :: "string \<Rightarrow> string" where
  "crlf_to_lf [] = []"
| "crlf_to_lf [c] = [c]"
| "crlf_to_lf (c # d # cs) =
     (if c = CHR 0x0D \<and> d = CHR 0x0A then CHR 0x0A # crlf_to_lf cs
      else c # crlf_to_lf (d # cs))"

text \<open>
  \<^verbatim>\<open>s.replace(/[P]+/g, rep)\<close>: each maximal run of characters of the class \<open>P\<close> becomes \<open>rep\<close>.
\<close>

function replace_runs :: "(char \<Rightarrow> bool) \<Rightarrow> string \<Rightarrow> string \<Rightarrow> string" where
  "replace_runs P rep [] = []"
| "replace_runs P rep (c # cs) =
     (if P c then rep @ replace_runs P rep (dropWhile P cs)
      else c # replace_runs P rep cs)"
  by pat_completeness auto
termination
  by (relation "measure (\<lambda>(P, rep, s). length s)")
     (auto simp: length_dropWhile_le less_Suc_eq_le)

text \<open>\<^verbatim>\<open>xs.findIndex(p)\<close>; \<open>None\<close> is the source's \<^verbatim>\<open>-1\<close>.\<close>

fun findIndex :: "('a \<Rightarrow> bool) \<Rightarrow> 'a list \<Rightarrow> nat option" where
  "findIndex p [] = None"
| "findIndex p (x # xs) =
     (if p x then Some 0 else map_option Suc (findIndex p xs))"

section \<open>The report validator (core/session.ts, core/system-prompt.ts)\<close>

definition REQUIRED_REPORT_HEADINGS :: "string list" where
  "REQUIRED_REPORT_HEADINGS =
     [''# Paper'',
      ''## 1. Key Problems and Challenges'',
      ''## 2. How This Paper Solves Them'',
      ''## 3. Related Work and Key Differences'',
      ''## 4. Future Directions'',
      ''## References'']"

definition REQUIRED_QUESTION_HEADINGS :: "string list" where
  "REQUIRED_QUESTION_HEADINGS =
     [''## 1. Key Problems and Challenges'',
      ''## 2. How This Paper Solves Them'',
      ''## 3. Related Work and Key Differences'',
      ''## 4. Future Directions'']"

record ReportValidation =
  hasAllRequiredHeadings :: bool
  missingHeadings :: "string list"
  answeredRequiredQuestions :: bool
  hasRelatedWorkComparison :: bool
  hasReferenceUrls :: bool
  isComplete :: bool

text \<open>
  \<^verbatim>\<open>new RegExp(`^${escapeRegExp(heading)}\\s*$`, "m").test(markdown)\<close>. The heading is escaped,
  so it is matched as it stands. \<open>line_end\<close> is \<^verbatim>\<open>\s*$\<close> at the current position: white
  space, as much as is needed, up to the end of the text or to a line terminator.
  \<open>hasHeading_from b\<close> walks the text, \<open>b\<close> telling whether the current position is the
  start of a line (\<^verbatim>\<open>^\<close>).
\<close>

fun line_end :: "string \<Rightarrow> bool" where
  "line_end [] = True"
| "line_end (c # cs) = (is_line_terminator c \<or> (is_space c \<and> line_end cs))"

fun hasHeading_from :: "bool \<Rightarrow> string \<Rightarrow> string \<Rightarrow> bool" where
  "hasHeading_from b [] heading = (b \<and> heading = [])"
| "hasHeading_from b (c # cs) heading =
     ((b \<and> startsWith (c # cs) heading \<and> line_end (drop (length heading) (c # cs)))
      \<or> hasHeading_from (is_line_terminator c) cs heading)"

definition hasHeading :: "string \<Rightarrow> string \<Rightarrow> bool" where
  "hasHeading markdown heading = hasHeading_from True markdown heading"

text \<open>
  \<^verbatim>\<open>s.match(/^(#+)\s+/)\<close>: the length of the first group, when the text starts with one
  or more \<^verbatim>\<open>#\<close> followed by white space.
\<close>

definition headingLevelMatch :: "string \<Rightarrow> nat option" where
  "headingLevelMatch s =
     (let n = length (takeWhile (\<lambda>c. c = CHR ''#'') s) in
      if 1 \<le> n \<and> (case drop n s of [] \<Rightarrow> False | c # _ \<Rightarrow> is_space c)
      then Some n else None)"

text \<open>The loop of \<^verbatim>\<open>getSectionBody\<close> that looks for the end of the section, from \<open>index\<close> on.\<close>

fun sectionEnd :: "nat \<Rightarrow> nat \<Rightarrow> string list \<Rightarrow> nat" where
  "sectionEnd headingLevel index [] = index"
| "sectionEnd headingLevel index (l # ls) =
     (case headingLevelMatch (trim l) of
        None \<Rightarrow> sectionEnd headingLevel (index + 1) ls
      | Some nextHeadingLevel \<Rightarrow>
          if nextHeadingLevel \<le> headingLevel then index
          else sectionEnd headingLevel (index + 1) ls)"

definition getSectionBody :: "string \<Rightarrow> string \<Rightarrow> string" where
  "getSectionBody markdown heading =
     (let lines = split_on (CHR 0x0A) (crlf_to_lf markdown) in
      case findIndex (\<lambda>line. trim line = trim heading) lines of
        None \<Rightarrow> []
      | Some sectionIndex \<Rightarrow>
          let headingLevel = (case headingLevelMatch heading of Some n \<Rightarrow> n | None \<Rightarrow> 1);
              endIndex = sectionEnd headingLevel (sectionIndex + 1) (drop (sectionIndex + 1) lines)
          in trim (join [CHR 0x0A] (take (endIndex - (sectionIndex + 1)) (drop (sectionIndex + 1) lines))))"

text \<open>
  The three tests of \<^verbatim>\<open>validateReport\<close>:
  \<^verbatim>\<open>/(compare|compared|difference|differ|similar|whereas|unlike|in contrast)/i\<close>,
  \<^verbatim>\<open>/\[\d+\]/\<close> and \<^verbatim>\<open>/https?:\/\/\S+/\<close> (with the \<^verbatim>\<open>i\<close> flag in the related-work
  section, without it in the references). Under \<^verbatim>\<open>i\<close> a letter of the expression accepts
  its two cases only, so the text is lower-cased and the expression read as it is.
\<close>

definition comparisonKeywords :: "string list" where
  "comparisonKeywords =
     [''compare'', ''compared'', ''difference'', ''differ'', ''similar'', ''whereas'',
      ''unlike'', ''in contrast'']"

definition hasComparisonKeyword :: "string \<Rightarrow> bool" where
  "hasComparisonKeyword text = list_ex (\<lambda>k. includesStr (toLowerCase text) k) comparisonKeywords"

definition bracketCitationAt :: "string \<Rightarrow> bool" where
  "bracketCitationAt t =
     (case t of
        [] \<Rightarrow> False
      | c # cs \<Rightarrow> c = CHR ''['' \<and> takeWhile is_digit cs \<noteq> [] \<and>
          (case dropWhile is_digit cs of [] \<Rightarrow> False | d # _ \<Rightarrow> d = CHR '']''))"

definition hasBracketCitation :: "string \<Rightarrow> bool" where
  "hasBracketCitation text = exists_at bracketCitationAt text"

definition urlAt :: "string \<Rightarrow> bool" where
  "urlAt t =
     ((startsWith t ''http://'' \<and> (case drop 7 t of [] \<Rightarrow> False | c # _ \<Rightarrow> \<not> is_space c)) \<or>
      (startsWith t ''https://'' \<and> (case drop 8 t of [] \<Rightarrow> False | c # _ \<Rightarrow> \<not> is_space c)))"

definition hasUrl :: "string \<Rightarrow> bool" where
  "hasUrl text = exists_at urlAt text"

definition hasUrlIgnoreCase :: "string \<Rightarrow> bool" where
  "hasUrlIgnoreCase text = exists_at urlAt (toLowerCase text)"

definition validateReport :: "string \<Rightarrow> ReportValidation" where
  "validateReport markdown =
     (let missing = filter (\<lambda>heading. \<not> hasHeading markdown heading) REQUIRED_REPORT_HEADINGS;
          answered = list_all (\<lambda>heading. 120 \<le> length (getSectionBody markdown heading))
                       REQUIRED_QUESTION_HEADINGS;
          relatedWorkText = getSectionBody markdown ''## 3. Related Work and Key Differences'';
          hasComparisonCitation =
            (hasBracketCitation relatedWorkText \<or> hasUrlIgnoreCase relatedWorkText);
          related = (hasComparisonKeyword relatedWorkText \<and> hasComparisonCitation);
          referencesText = getSectionBody markdown ''## References'';
          refs = hasUrl referencesText;
          allHeadings = (missing = [])
      in \<lparr> hasAllRequiredHeadings = allHeadings,
           missingHeadings = missing,
           answeredRequiredQuestions = answered,
           hasRelatedWorkComparison = related,
           hasReferenceUrls = refs,
           isComplete = (allHeadings \<and> answered \<and> related \<and> refs) \<rparr>)"

subsection \<open>The checks in the words of the specification\<close>

text \<open>
  What each check of the validator asks of a text, stated without reference to the way the
  code looks for it. A heading is present when it stands at the start of a line and only
  white space follows it up to the end of that line. A URL is \<^verbatim>\<open>http://\<close> or \<^verbatim>\<open>https://\<close>
  followed by a character that is not white space; a bracket citation is \<^verbatim>\<open>[\<close>, one or more
  digits, \<^verbatim>\<open>]\<close>; a comparison word is one of the eight of the list, in any case.
\<close>

definition headingPresent :: "string \<Rightarrow> string \<Rightarrow> bool" where
  "headingPresent markdown heading \<longleftrightarrow>
     (\<exists>before blanks after. markdown = before @ heading @ blanks @ after \<and>
        (before = [] \<or> is_line_terminator (last before)) \<and>
        list_all is_space blanks \<and>
        (after = [] \<or> is_line_terminator (hd after)))"

text \<open>
  The section of a heading. The lines of a text are the pieces between its line feeds, a
  carriage return that stands directly before a line feed being part of the line break.
  \<open>strippedOf s t\<close>: \<open>t\<close> is \<open>s\<close> without the white space at its two ends. A heading of
  depth \<open>k\<close> is \<open>k\<close> times \<^verbatim>\<open>#\<close>, one at least, and then a white space. The title line of a
  section is the first line that is the heading once both are stripped; the section ends
  before the next line that, stripped, is a heading of the same depth or of a smaller one,
  or at the end of the text. The body of the section is the text of the lines between,
  stripped; a heading without a title line has the empty body.
\<close>

inductive textLines :: "string \<Rightarrow> string list \<Rightarrow> bool" where
  lastLine: "CHR 0x0A \<notin> set l \<Longrightarrow> textLines l [l]"
| lineFeed: "CHR 0x0A \<notin> set l \<Longrightarrow> l = [] \<or> last l \<noteq> CHR 0x0D \<Longrightarrow> textLines rest ls \<Longrightarrow>
     textLines (l @ CHR 0x0A # rest) (l # ls)"
| crLineFeed: "CHR 0x0A \<notin> set l \<Longrightarrow> textLines rest ls \<Longrightarrow>
     textLines (l @ CHR 0x0D # CHR 0x0A # rest) (l # ls)"

definition strippedOf :: "string \<Rightarrow> string \<Rightarrow> bool" where
  "strippedOf s t \<longleftrightarrow>
     (\<exists>a b. s = a @ t @ b \<and> list_all is_space a \<and> list_all is_space b \<and>
        (t = [] \<or> (\<not> is_space (hd t) \<and> \<not> is_space (last t))))"

definition headingOfDepth :: "nat \<Rightarrow> string \<Rightarrow> bool" where
  "headingOfDepth k l \<longleftrightarrow>
     0 < k \<and> (\<exists>c rest. l = replicate k (CHR ''#'') @ c # rest \<and> is_space c)"

definition isTitleLine :: "string \<Rightarrow> string \<Rightarrow> bool" where
  "isTitleLine heading l \<longleftrightarrow> (\<exists>t. strippedOf l t \<and> strippedOf heading t)"

definition closesSection :: "nat \<Rightarrow> string \<Rightarrow> bool" where
  "closesSection d l \<longleftrightarrow> (\<exists>t k. strippedOf l t \<and> headingOfDepth k t \<and> k \<le> d)"

definition sectionBody :: "string \<Rightarrow> string \<Rightarrow> string \<Rightarrow> bool" where
  "sectionBody markdown heading txt \<longleftrightarrow>
     (\<exists>ls d. textLines markdown ls \<and> headingOfDepth d heading \<and>
        ((\<forall>l \<in> set ls. \<not> isTitleLine heading l) \<and> txt = []
         \<or> (\<exists>before titleLine inside after.
               ls = before @ titleLine # inside @ after \<and>
               (\<forall>l \<in> set before. \<not> isTitleLine heading l) \<and> isTitleLine heading titleLine \<and>
               (\<forall>l \<in> set inside. \<not> closesSection d l) \<and>
               (after = [] \<or> closesSection d (hd after)) \<and>
               strippedOf (concat (map (\<lambda>l. l @ [CHR 0x0A]) inside)) txt)))"

definition containsUrl :: "string \<Rightarrow> bool" where
  "containsUrl text \<longleftrightarrow>
     (\<exists>a scheme c b. text = a @ scheme @ c # b \<and>
        (scheme = ''http://'' \<or> scheme = ''https://'') \<and> \<not> is_space c)"

definition containsUrlAnyCase :: "string \<Rightarrow> bool" where
  "containsUrlAnyCase text \<longleftrightarrow>
     (\<exists>a scheme c b. text = a @ scheme @ c # b \<and>
        (toLowerCase scheme = ''http://'' \<or> toLowerCase scheme = ''https://'') \<and> \<not> is_space c)"

definition containsBracketCitation :: "string \<Rightarrow> bool" where
  "containsBracketCitation text \<longleftrightarrow>
     (\<exists>a ds b. text = a @ ''['' @ ds @ '']'' @ b \<and> ds \<noteq> [] \<and> list_all is_digit ds)"

definition containsComparisonWord :: "string \<Rightarrow> bool" where
  "containsComparisonWord text \<longleftrightarrow>
     (\<exists>k a b. k \<in> set comparisonKeywords \<and> toLowerCase text = a @ k @ b)"

section \<open>Slug derivation (core/session.ts)\<close>

record URL =
  hostname :: string
  pathname :: string
  href :: string

definition is_id_char :: "char \<Rightarrow> bool" where
  "is_id_char c = (c \<notin> set ''/?#'')"

text \<open>
  \<^verbatim>\<open>pathname.match(/^\/abs\/([^/?#]+)/)\<close> takes the longest run of identifier characters
  after \<^verbatim>\<open>/abs/\<close>. \<^verbatim>\<open>pathname.match(/^\/pdf\/([^/?#]+?)(?:\.pdf)?$/)\<close> needs the whole rest
  of the path to be identifier characters; its group is lazy, so a final \<^verbatim>\<open>.pdf\<close> is left
  out of it whenever something remains before it.
\<close>

definition absMatch :: "string \<Rightarrow> string option" where
  "absMatch path =
     (if startsWith path ''/abs/'' \<and> takeWhile is_id_char (drop 5 path) \<noteq> []
      then Some (takeWhile is_id_char (drop 5 path)) else None)"

definition pdfMatch :: "string \<Rightarrow> string option" where
  "pdfMatch path =
     (let r = drop 5 path in
      if startsWith path ''/pdf/'' \<and> r \<noteq> [] \<and> list_all is_id_char r
      then Some (if endsWith r ''.pdf'' \<and> 4 < length r then take (length r - 4) r else r)
      else None)"

definition parseArxivId :: "URL \<Rightarrow> string option" where
  "parseArxivId seedUrl =
     (if \<not> endsWith (hostname seedUrl) ''arxiv.org'' then None
      else case absMatch (pathname seedUrl) of
             Some i \<Rightarrow> Some i
           | None \<Rightarrow> pdfMatch (pathname seedUrl))"

text \<open>
  \<^verbatim>\<open>value.toLowerCase().replace(/[^a-z0-9]+/g, "-").replace(/^-+|-+$/g, "").replace(/-+/g, "-")\<close>
\<close>

definition is_hyphen :: "char \<Rightarrow> bool" where
  "is_hyphen c = (c = CHR ''-'')"

definition strip_hyphens :: "string \<Rightarrow> string" where
  "strip_hyphens s = rev (dropWhile is_hyphen (rev (dropWhile is_hyphen s)))"

definition sanitizeSlug :: "string \<Rightarrow> string" where
  "sanitizeSlug v =
     replace_runs is_hyphen ''-''
       (strip_hyphens (replace_runs (\<lambda>c. \<not> is_lower_alnum c) ''-'' (toLowerCase v)))"

definition createPaperSlug :: "URL \<Rightarrow> string" where
  "createPaperSlug seedUrl =
     (let pathFragment = join ''-'' (filter (\<lambda>p. p \<noteq> []) (split_on (CHR ''/'') (pathname seedUrl)));
          rawSlug = hostname seedUrl @ ''-'' @ pathFragment;
          slug = sanitizeSlug rawSlug;
          fromPath = (if 0 < length slug then take 80 slug else ''paper'')
      in case parseArxivId seedUrl of
           Some arxivId \<Rightarrow>
             if arxivId \<noteq> [] then
               (let arxivSlug = sanitizeSlug (''arxiv-'' @ arxivId) in
                if arxivSlug \<noteq> [] then arxivSlug else ''arxiv-paper'')
             else fromPath
         | None \<Rightarrow> fromPath)"

text \<open>
  The slug in the words of the specification: the text is lower-cased, its runs of letters
  and digits are kept, and everything between two of them becomes one hyphen.
  \<open>alnumWords\<close> lists those runs.
\<close>

function alnumWords :: "string \<Rightarrow> string list" where
  "alnumWords [] = []"
| "alnumWords (c # cs) =
     (if is_lower_alnum c
      then takeWhile is_lower_alnum (c # cs) # alnumWords (dropWhile is_lower_alnum cs)
      else alnumWords cs)"
  by pat_completeness auto
termination
  by (relation "measure length") (auto simp: length_dropWhile_le less_Suc_eq_le)

definition slugOf :: "string \<Rightarrow> string" where
  "slugOf v = join ''-'' (alnumWords (toLowerCase v))"




text \<open>
  For the proofs: what \<^verbatim>\<open>replace(/[^a-z0-9]+/g, "-")\<close> puts before the first run and after
  the last one.
\<close>

abbreviation (input) is_sep :: "char \<Rightarrow> bool" where "is_sep \<equiv> (\<lambda>c. \<not> is_lower_alnum c)"

definition slugPre :: "string \<Rightarrow> string" where
  "slugPre s = (case s of [] \<Rightarrow> [] | c # _ \<Rightarrow> if is_lower_alnum c then [] else ''-'')"

definition slugPost :: "string \<Rightarrow> string" where
  "slugPost s = (if alnumWords s \<noteq> [] \<and> \<not> is_lower_alnum (last s) then ''-'' else [])"

section \<open>The platform\<close>

text \<open>
  What the code takes from its runtime is a parameter of the model: the URL parser
  (\<^verbatim>\<open>new URL(s)\<close>, \<open>None\<close> when it throws), the functions of \<^verbatim>\<open>node:path\<close>, the working
  directory of the process, the clock (\<open>now k\<close> is what the \<open>k\<close>-th reading of
  \<^verbatim>\<open>new Date().toISOString()\<close> returns), \<^verbatim>\<open>decodeURIComponent\<close> (\<open>None\<close> when it throws), and
  the regular-expression engine for the expressions that scan remote documents. Every
  theorem holds whatever they are.

  The expressions given to the engine are named by a \<open>pattern\<close>:
  \<^item> \<open>XmlTag t\<close> is \<^verbatim>\<open>new RegExp(`<${t}[^>]*>([\\s\\S]*?)</${t}>`, "i")\<close>;
  \<^item> \<open>MetaNameFirst k\<close> is
    \<^verbatim>\<open><meta\s+[^>]*(?:name|property)=["']k["'][^>]*content=["']([^"']+)["'][^>]*>\<close>
    and \<open>MetaContentFirst k\<close> is
    \<^verbatim>\<open><meta\s+[^>]*content=["']([^"']+)["'][^>]*(?:name|property)=["']k["'][^>]*>\<close>,
    both with the key escaped and the flag \<^verbatim>\<open>i\<close>;
  \<^item> \<open>HtmlTitle\<close> is \<^verbatim>\<open>/<title[^>]*>([\s\S]*?)<\/title>/i\<close>;
  \<^item> \<open>ScriptBlock\<close>, \<open>StyleBlock\<close>, \<open>NoscriptBlock\<close> are
    \<^verbatim>\<open>/<script[\s\S]*?<\/script>/gi\<close> and the same for \<^verbatim>\<open>style\<close> and \<^verbatim>\<open>noscript\<close>;
    \<open>AnyTag\<close> is \<^verbatim>\<open>/<[^>]+>/g\<close>;
  \<^item> \<open>YearPattern\<close> is \<^verbatim>\<open>/\b(19|20)\d{2}\b/\<close>;
  \<^item> \<open>ArxivEntry\<close> is \<^verbatim>\<open>/<entry>([\s\S]*?)<\/entry>/\<close> and \<open>ArxivAuthor\<close> is
    \<^verbatim>\<open>/<author>\s*<name>([\s\S]*?)<\/name>\s*<\/author>/g\<close>.

  \<open>rx_match p s\<close> is \<^verbatim>\<open>s.match(p)\<close> for an expression without the flag \<^verbatim>\<open>g\<close>: the matched
  text followed by its groups, or \<open>None\<close>. \<open>rx_matchAll p s\<close> is \<^verbatim>\<open>[...s.matchAll(p)]\<close>, and
  \<open>rx_replace p r s\<close> is \<^verbatim>\<open>s.replace(p, r)\<close> for an expression with the flag \<^verbatim>\<open>g\<close>.
  \<open>ellipsis\<close> is the text that \<^verbatim>\<open>clipText\<close> puts at the end of a clipped text; it has a
  code unit outside Latin-1, so it is a parameter too.
\<close>

datatype pattern =
    XmlTag string
  | MetaNameFirst string
  | MetaContentFirst string
  | HtmlTitle
  | ScriptBlock
  | StyleBlock
  | NoscriptBlock
  | AnyTag
  | YearPattern
  | ArxivEntry
  | ArxivAuthor

record platform =
  parseUrl :: "string \<Rightarrow> URL option"
  path_resolve :: "string list \<Rightarrow> string"
  path_isAbsolute :: "string \<Rightarrow> bool"
  path_sep :: string
  path_join :: "string list \<Rightarrow> string"
  path_relative :: "string \<Rightarrow> string \<Rightarrow> string"
  cwd :: string
  now :: "nat \<Rightarrow> string"
  decodeURIComponent :: "string \<Rightarrow> string option"
  rx_match :: "pattern \<Rightarrow> string \<Rightarrow> string list option"
  rx_matchAll :: "pattern \<Rightarrow> string \<Rightarrow> string list list"
  rx_replace :: "pattern \<Rightarrow> string \<Rightarrow> string \<Rightarrow> string"
  ellipsis :: string

section \<open>Path sandbox (tools/path-utils.ts)\<close>

datatype RunError =
    AlreadyInProgress
  | SeedEmpty
  | SeedInvalid string
  | PathOutsideRoot string string
  | IoFailure
  | AgentFailure
  | MaxTurnsReached number
  | ReportMissing string

definition resolvePathWithinRoot :: "platform \<Rightarrow> string \<Rightarrow> string \<Rightarrow> RunError + string" where
  "resolvePathWithinRoot P inputPath rootDir =
     (let normalizedRoot = path_resolve P [rootDir];
          absolutePath = (if path_isAbsolute P inputPath then path_resolve P [inputPath]
                          else path_resolve P [normalizedRoot, inputPath])
      in if absolutePath = normalizedRoot \<or> startsWith absolutePath (normalizedRoot @ path_sep P)
         then Inr absolutePath
         else Inl (PathOutsideRoot inputPath normalizedRoot))"

definition toPromptPath :: "platform \<Rightarrow> string \<Rightarrow> string \<Rightarrow> string" where
  "toPromptPath P absolutePath rootDir =
     (let relativePath = map (\<lambda>c. if c = CHR 0x5C then CHR ''/'' else c)
                            (path_relative P rootDir absolutePath)
      in if 0 < length relativePath then relativePath else ''.'')"

section \<open>The session controller (core/session.ts)\<close>

subsection \<open>Data\<close>

record SourceReference =
  url :: string
  title :: js_value
  source :: js_value
  snippet :: js_value
  addedAt :: string

text \<open>The argument of \<^verbatim>\<open>addSource\<close>: a source reference without \<^verbatim>\<open>addedAt\<close>.\<close>

record SourceInput =
  in_url :: string
  in_title :: js_value
  in_source :: js_value
  in_snippet :: js_value

record RunState =
  turnCount :: nat
  maxTurnsExceeded :: bool
  sources :: "string \<rightharpoonup> SourceReference"

record DeepResearchSessionOptions =
  opt_workingDirectory :: "string option"
  opt_reportsRoot :: "string option"
  opt_maxTurns :: "number option"

datatype AgentEvent =
    TurnEnd
  | ToolExecutionEnd string js_value
  | OtherAgentEvent string

datatype DeepResearchSessionEvent =
    FromAgent AgentEvent
  | ReportFinalized string string string ReportValidation

text \<open>
  The reasoning engine is outside the repository. The model keeps the calls the session
  makes on it, in order: a request for cancellation is an \<open>Abort\<close> in that list.
\<close>

datatype AgentCall =
    SetSystemPrompt
  | AppendMessage string string
  | Prompt string string string
  | Abort

text \<open>
  A run state is an object that the session (\<^verbatim>\<open>this.currentRun\<close>) and the call of
  \<^verbatim>\<open>run\<close> that made it (its local \<^verbatim>\<open>runState\<close>) both refer to. \<open>runStates\<close> is the store
  of these objects, \<open>allocated\<close> the number of objects made so far, and \<open>currentRun\<close> a
  reference into the store. \<open>emitted\<close> is what a subscribed listener has received, and
  \<open>clockReads\<close> the number of readings of the clock so far.
\<close>

record DeepResearchSession =
  workingDirectory :: string
  reportsRoot :: string
  maxTurns :: number
  runStates :: "nat \<Rightarrow> RunState"
  allocated :: nat
  currentRun :: "nat option"
  agentCalls :: "AgentCall list"
  emitted :: "DeepResearchSessionEvent list"
  clockReads :: nat

definition emptyRunState :: RunState where
  "emptyRunState = \<lparr> turnCount = 0, maxTurnsExceeded = False, sources = Map.empty \<rparr>"

subsection \<open>Constructor, \<^verbatim>\<open>abort\<close>, \<^verbatim>\<open>emit\<close>\<close>

definition new_session :: "platform \<Rightarrow> DeepResearchSessionOptions \<Rightarrow> DeepResearchSession" where
  "new_session P options =
     \<lparr> workingDirectory =
         path_resolve P [case opt_workingDirectory options of Some w \<Rightarrow> w | None \<Rightarrow> cwd P],
       reportsRoot = (case opt_reportsRoot options of Some r \<Rightarrow> r | None \<Rightarrow> ''reports''),
       maxTurns = math_max (Finite 1)
                    (case opt_maxTurns options of Some n \<Rightarrow> n | None \<Rightarrow> Finite 24),
       runStates = (\<lambda>_. emptyRunState),
       allocated = 0,
       currentRun = None,
       agentCalls = [],
       emitted = [],
       clockReads = 0 \<rparr>"

definition agent_call :: "AgentCall \<Rightarrow> DeepResearchSession \<Rightarrow> DeepResearchSession" where
  "agent_call c s = s\<lparr> agentCalls := agentCalls s @ [c] \<rparr>"

definition abort :: "DeepResearchSession \<Rightarrow> DeepResearchSession" where
  "abort s = agent_call Abort s"

definition emit :: "DeepResearchSessionEvent \<Rightarrow> DeepResearchSession \<Rightarrow> DeepResearchSession" where
  "emit event s = s\<lparr> emitted := emitted s @ [event] \<rparr>"

text \<open>The number of cancellation requests made so far.\<close>

definition abortRequests :: "DeepResearchSession \<Rightarrow> nat" where
  "abortRequests s = length (filter (\<lambda>c. c = Abort) (agentCalls s))"

subsection \<open>\<^verbatim>\<open>addSource\<close>\<close>

definition mergeSource :: "SourceReference \<Rightarrow> SourceInput \<Rightarrow> SourceReference" where
  "mergeSource existing src =
     existing\<lparr> title := js_or (title existing) (in_title src),
               snippet := js_or (snippet existing) (in_snippet src),
               source := js_or (source existing) (in_source src),
               addedAt := addedAt existing \<rparr>"

definition addSource :: "platform \<Rightarrow> SourceInput \<Rightarrow> DeepResearchSession \<Rightarrow> DeepResearchSession" where
  "addSource P src s =
     (case currentRun s of
        None \<Rightarrow> s
      | Some a \<Rightarrow>
          let r = runStates s a;
              existing = sources r (in_url src);
              now = now P (clockReads s);
              entry = (case existing of
                         None \<Rightarrow> \<lparr> url = in_url src, title = in_title src, source = in_source src,
                                    snippet = in_snippet src, addedAt = now \<rparr>
                       | Some e \<Rightarrow> mergeSource e src)
          in s\<lparr> runStates := (runStates s)(a := r\<lparr> sources := (sources r)(in_url src \<mapsto> entry) \<rparr>),
                clockReads := Suc (clockReads s) \<rparr>)"

subsection \<open>\<^verbatim>\<open>ingestToolSources\<close>\<close>

definition isRecord :: "js_value \<Rightarrow> bool" where
  "isRecord v = (case v of JArr _ \<Rightarrow> True | JObj _ \<Rightarrow> True | _ \<Rightarrow> False)"

definition isString :: "js_value \<Rightarrow> bool" where
  "isString v = (case v of JStr _ \<Rightarrow> True | _ \<Rightarrow> False)"

definition isArray :: "js_value \<Rightarrow> bool" where
  "isArray v = (case v of JArr _ \<Rightarrow> True | _ \<Rightarrow> False)"

fun str_of :: "js_value \<Rightarrow> string" where
  "str_of (JStr s) = s"
| "str_of v = []"

fun items_of :: "js_value \<Rightarrow> js_value list" where
  "items_of (JArr xs) = xs"
| "items_of v = []"

definition isWebSearchToolDetails :: "js_value \<Rightarrow> bool" where
  "isWebSearchToolDetails v =
     (if \<not> isRecord v \<or> \<not> isString (get_prop v ''query'') \<or> \<not> isArray (get_prop v ''results'')
      then False
      else list_all (\<lambda>entry. isRecord entry \<and> isString (get_prop entry ''title'') \<and>
                              isString (get_prop entry ''url'') \<and>
                              isString (get_prop entry ''snippet'') \<and>
                              isString (get_prop entry ''source''))
             (items_of (get_prop v ''results'')))"

definition isExtractSourceToolDetails :: "js_value \<Rightarrow> bool" where
  "isExtractSourceToolDetails v =
     (if \<not> isRecord v then False
      else if \<not> isString (get_prop v ''title'') \<or> \<not> isString (get_prop v ''canonicalUrl'') \<or>
              \<not> isString (get_prop v ''sourceType'') then False
      else let sourceType = str_of (get_prop v ''sourceType'') in
           if sourceType \<noteq> ''arxiv'' \<and> sourceType \<noteq> ''pdf'' \<and> sourceType \<noteq> ''html'' \<and>
              sourceType \<noteq> ''other'' then False
           else True)"

definition ingestToolSources ::
  "platform \<Rightarrow> string \<Rightarrow> js_value \<Rightarrow> DeepResearchSession \<Rightarrow> DeepResearchSession" where
  "ingestToolSources P toolName result s =
     (if \<not> isRecord result then s
      else let details = get_prop result ''details'' in
        if toolName = ''web_search'' \<and> isWebSearchToolDetails details then
          fold (\<lambda>searchResult.
                  addSource P \<lparr> in_url = str_of (get_prop searchResult ''url''),
                                in_title = get_prop searchResult ''title'',
                                in_source = get_prop searchResult ''source'',
                                in_snippet = get_prop searchResult ''snippet'' \<rparr>)
               (items_of (get_prop details ''results'')) s
        else if toolName = ''extract_source'' \<and> isExtractSourceToolDetails details then
          addSource P \<lparr> in_url = str_of (get_prop details ''canonicalUrl''),
                        in_title = get_prop details ''title'',
                        in_source = get_prop details ''sourceType'',
                        in_snippet = get_prop details ''abstract'' \<rparr> s
        else s)"

subsection \<open>\<^verbatim>\<open>handleAgentEvent\<close>\<close>

text \<open>
  \<^verbatim>\<open>turnCount >= maxTurns\<close>: the count, a whole number that starts at zero and grows by
  one, compared with the cap.
\<close>

definition reaches :: "nat \<Rightarrow> number \<Rightarrow> bool" where
  "reaches count cap = js_ge (Finite (real count)) cap"

definition countTurn :: "DeepResearchSession \<Rightarrow> DeepResearchSession" where
  "countTurn s =
     (case currentRun s of
        None \<Rightarrow> s
      | Some a \<Rightarrow>
          let r = (runStates s a)\<lparr> turnCount := turnCount (runStates s a) + 1 \<rparr> in
          if reaches (turnCount r) (maxTurns s) \<and> \<not> maxTurnsExceeded r
          then abort (s\<lparr> runStates := (runStates s)(a := r\<lparr> maxTurnsExceeded := True \<rparr>) \<rparr>)
          else s\<lparr> runStates := (runStates s)(a := r) \<rparr>)"

definition handleAgentEvent ::
  "platform \<Rightarrow> AgentEvent \<Rightarrow> DeepResearchSession \<Rightarrow> DeepResearchSession" where
  "handleAgentEvent P event s =
     (let s1 = (if currentRun s \<noteq> None then
                  let s2 = (if event = TurnEnd then countTurn s else s) in
                  (case event of
                     ToolExecutionEnd toolName result \<Rightarrow> ingestToolSources P toolName result s2
                   | _ \<Rightarrow> s2)
                else s)
      in emit (FromAgent event) s1)"

text \<open>A sequence of events, handled one at a time in the order of emission.\<close>

definition handleAgentEvents ::
  "platform \<Rightarrow> AgentEvent list \<Rightarrow> DeepResearchSession \<Rightarrow> DeepResearchSession" where
  "handleAgentEvents P events s = fold (handleAgentEvent P) events s"

subsection \<open>\<^verbatim>\<open>run\<close>\<close>

text \<open>
  \<^verbatim>\<open>run\<close> is asynchronous: between two of its \<^verbatim>\<open>await\<close>s it runs without interruption,
  and at an \<^verbatim>\<open>await\<close> other code of the same thread may run (an event of the agent, another
  call of \<^verbatim>\<open>run\<close>). The model has one function for each uninterrupted part. \<open>RunTask\<close>
  holds the local variables of one call of \<^verbatim>\<open>run\<close> that live across its \<^verbatim>\<open>await\<close>s; its
  \<open>t_runState\<close> is the reference held by the local \<^verbatim>\<open>runState\<close>, once it exists.
\<close>

record RunTask =
  t_seedUrl :: URL
  t_paperSlug :: string
  t_reportDirectory :: string
  t_reportPath :: string
  t_reportHtmlPath :: string
  t_sourcesPath :: string
  t_runState :: "nat option"

record DeepResearchRunResult =
  res_seedUrl :: string
  res_reportDirectory :: string
  res_reportPath :: string
  res_reportHtmlPath :: string
  res_sourcesPath :: string
  res_turnCount :: nat
  res_validation :: ReportValidation

text \<open>From the call to \<^verbatim>\<open>await mkdir(...)\<close>. Nothing of the session is written here.\<close>

definition run_enter :: "platform \<Rightarrow> string \<Rightarrow> DeepResearchSession \<Rightarrow> RunError + RunTask" where
  "run_enter P seedPaperUrl s =
     (if currentRun s \<noteq> None then Inl AlreadyInProgress
      else let normalizedSeed = trim seedPaperUrl in
        if length normalizedSeed = 0 then Inl SeedEmpty
        else case parseUrl P normalizedSeed of
          None \<Rightarrow> Inl (SeedInvalid seedPaperUrl)
        | Some seedUrl \<Rightarrow>
            let paperSlug = createPaperSlug seedUrl in
            case resolvePathWithinRoot P (path_join P [reportsRoot s, paperSlug]) (workingDirectory s) of
              Inl e \<Rightarrow> Inl e
            | Inr reportDirectory \<Rightarrow>
            case resolvePathWithinRoot P (path_join P [reportDirectory, ''report.md'']) (workingDirectory s) of
              Inl e \<Rightarrow> Inl e
            | Inr reportPath \<Rightarrow>
            case resolvePathWithinRoot P (path_join P [reportDirectory, ''report.html'']) (workingDirectory s) of
              Inl e \<Rightarrow> Inl e
            | Inr reportHtmlPath \<Rightarrow>
            case resolvePathWithinRoot P (path_join P [reportDirectory, ''sources.json'']) (workingDirectory s) of
              Inl e \<Rightarrow> Inl e
            | Inr sourcesPath \<Rightarrow>
                Inr \<lparr> t_seedUrl = seedUrl, t_paperSlug = paperSlug,
                      t_reportDirectory = reportDirectory, t_reportPath = reportPath,
                      t_reportHtmlPath = reportHtmlPath, t_sourcesPath = sourcesPath,
                      t_runState = None \<rparr>)"

text \<open>
  From the end of \<^verbatim>\<open>mkdir\<close> to \<^verbatim>\<open>await this.agent.prompt(prompt)\<close>. \<open>mkdirOk\<close> tells whether
  \<^verbatim>\<open>mkdir\<close> succeeded; when it did not, the call is rejected here.
\<close>

definition run_after_mkdir ::
  "platform \<Rightarrow> RunTask \<Rightarrow> bool \<Rightarrow> DeepResearchSession \<Rightarrow> (RunError + RunTask) \<times> DeepResearchSession" where
  "run_after_mkdir P t mkdirOk s =
     (if \<not> mkdirOk then (Inl IoFailure, s)
      else
        let a = allocated s;
            s1 = s\<lparr> runStates := (runStates s)(a := emptyRunState),
                    allocated := Suc a,
                    currentRun := Some a \<rparr>;
            s2 = addSource P \<lparr> in_url = href (t_seedUrl t), in_title = JStr ''Seed Paper'',
                               in_source = JStr ''seed'', in_snippet = JUndefined \<rparr> s1;
            promptReportPath = toPromptPath P (t_reportPath t) (workingDirectory s);
            promptSourcesPath = toPromptPath P (t_sourcesPath t) (workingDirectory s);
            s3 = agent_call SetSystemPrompt s2;
            s4 = agent_call (AppendMessage ''initialized''
                   (''Report directory initialized at '' @
                    toPromptPath P (t_reportDirectory t) (workingDirectory s))) s3;
            s5 = agent_call (Prompt (href (t_seedUrl t)) promptReportPath promptSourcesPath) s4
        in (Inr (t\<lparr> t_runState := Some a \<rparr>), s5))"

text \<open>
  From the end of \<^verbatim>\<open>agent.prompt\<close> to \<^verbatim>\<open>await readFile(...)\<close>: the \<^verbatim>\<open>finally\<close> block, the
  rethrow when the prompt failed (\<open>promptOk\<close> is false), the test of the turn limit.
\<close>

definition run_after_prompt ::
  "RunTask \<Rightarrow> bool \<Rightarrow> DeepResearchSession \<Rightarrow> (RunError + RunTask) \<times> DeepResearchSession" where
  "run_after_prompt t promptOk s =
     (let s1 = s\<lparr> currentRun := None \<rparr> in
      if \<not> promptOk then (Inl AgentFailure, s1)
      else case t_runState t of
        None \<Rightarrow> (Inr t, s1)
      | Some a \<Rightarrow>
          if maxTurnsExceeded (runStates s1 a) then (Inl (MaxTurnsReached (maxTurns s1)), s1)
          else (Inr t, s1))"

text \<open>
  The rest of \<^verbatim>\<open>run\<close>: \<open>readResult\<close> is the text read from the report file (\<open>None\<close> when
  \<^verbatim>\<open>readFile\<close> throws), \<open>writeHtmlOk\<close> and \<open>writeSourcesOk\<close> tell whether the two
  \<^verbatim>\<open>writeFile\<close> succeeded. This part reads the run state through \<open>t_runState\<close> only and
  writes nothing of the session but the two logs; the contents of the files it writes are
  not part of the model.
\<close>

definition run_finish ::
  "platform \<Rightarrow> RunTask \<Rightarrow> string option \<Rightarrow> bool \<Rightarrow> bool \<Rightarrow> DeepResearchSession \<Rightarrow>
     (RunError + DeepResearchRunResult) \<times> DeepResearchSession" where
  "run_finish P t readResult writeHtmlOk writeSourcesOk s =
     (let promptReportPath = toPromptPath P (t_reportPath t) (workingDirectory s) in
      case readResult of
        None \<Rightarrow> (Inl (ReportMissing promptReportPath), s)
      | Some markdown \<Rightarrow>
          if \<not> writeHtmlOk then (Inl IoFailure, s)
          else if \<not> writeSourcesOk then (Inl IoFailure, s)
          else
            let validation = validateReport markdown;
                s1 = agent_call (AppendMessage ''finalized''
                       (''Finalized report artifacts at '' @ promptReportPath @ '' and '' @
                        toPromptPath P (t_reportHtmlPath t) (workingDirectory s))) s;
                s2 = emit (ReportFinalized (t_reportPath t) (t_reportHtmlPath t) (t_sourcesPath t)
                             validation) s1
            in (Inr \<lparr> res_seedUrl = href (t_seedUrl t),
                       res_reportDirectory = t_reportDirectory t,
                       res_reportPath = t_reportPath t,
                       res_reportHtmlPath = t_reportHtmlPath t,
                       res_sourcesPath = t_sourcesPath t,
                       res_turnCount = (case t_runState t of Some a \<Rightarrow> turnCount (runStates s a)
                                        | None \<Rightarrow> 0),
                       res_validation = validation \<rparr>, s2))"

subsection \<open>Calls of \<^verbatim>\<open>run\<close> in time\<close>

text \<open>
  What happens to a session, one thing at a time: a caller calls \<^verbatim>\<open>run\<close> or \<^verbatim>\<open>abort\<close>, the
  agent emits an event, or an operation that a call of \<^verbatim>\<open>run\<close> awaits comes to its end.
  The calls of \<^verbatim>\<open>run\<close> are numbered in the order in which they are made; each is waiting
  at one of its \<^verbatim>\<open>await\<close>s or is settled, with an error or a result.
\<close>

datatype RunPhase =
    AwaitingMkdir RunTask
  | AwaitingPrompt RunTask
  | AwaitingArtifacts RunTask
  | Settled "RunError + DeepResearchRunResult"

datatype Happening =
    CallRun string
  | CallAbort
  | AgentEmits AgentEvent
  | MkdirDone nat bool
  | PromptDone nat bool
  | ArtifactsDone nat "string option" bool bool

record Controller =
  session :: DeepResearchSession
  runCalls :: "RunPhase list"

definition setPhase :: "nat \<Rightarrow> RunPhase \<Rightarrow> Controller \<Rightarrow> Controller" where
  "setPhase i ph c = c\<lparr> runCalls := (runCalls c)[i := ph] \<rparr>"

definition phaseOf :: "Controller \<Rightarrow> nat \<Rightarrow> RunPhase option" where
  "phaseOf c i = (if i < length (runCalls c) then Some (runCalls c ! i) else None)"

fun happen :: "platform \<Rightarrow> Controller \<Rightarrow> Happening \<Rightarrow> Controller" where
  "happen P c (CallRun seedPaperUrl) =
     (case run_enter P seedPaperUrl (session c) of
        Inl e \<Rightarrow> c\<lparr> runCalls := runCalls c @ [Settled (Inl e)] \<rparr>
      | Inr t \<Rightarrow> c\<lparr> runCalls := runCalls c @ [AwaitingMkdir t] \<rparr>)"
| "happen P c CallAbort = c\<lparr> session := abort (session c) \<rparr>"
| "happen P c (AgentEmits event) = c\<lparr> session := handleAgentEvent P event (session c) \<rparr>"
| "happen P c (MkdirDone i mkdirOk) =
     (case phaseOf c i of
        Some (AwaitingMkdir t) \<Rightarrow>
          (case run_after_mkdir P t mkdirOk (session c) of
             (Inl e, s) \<Rightarrow> setPhase i (Settled (Inl e)) (c\<lparr> session := s \<rparr>)
           | (Inr t', s) \<Rightarrow> setPhase i (AwaitingPrompt t') (c\<lparr> session := s \<rparr>))
      | _ \<Rightarrow> c)"
| "happen P c (PromptDone i promptOk) =
     (case phaseOf c i of
        Some (AwaitingPrompt t) \<Rightarrow>
          (case run_after_prompt t promptOk (session c) of
             (Inl e, s) \<Rightarrow> setPhase i (Settled (Inl e)) (c\<lparr> session := s \<rparr>)
           | (Inr t', s) \<Rightarrow> setPhase i (AwaitingArtifacts t') (c\<lparr> session := s \<rparr>))
      | _ \<Rightarrow> c)"
| "happen P c (ArtifactsDone i readResult writeHtmlOk writeSourcesOk) =
     (case phaseOf c i of
        Some (AwaitingArtifacts t) \<Rightarrow>
          (case run_finish P t readResult writeHtmlOk writeSourcesOk (session c) of
             (r, s) \<Rightarrow> setPhase i (Settled r) (c\<lparr> session := s \<rparr>))
      | _ \<Rightarrow> c)"

definition happenings :: "platform \<Rightarrow> Controller \<Rightarrow> Happening list \<Rightarrow> Controller" where
  "happenings P c hs = foldl (happen P) c hs"

definition startController :: "platform \<Rightarrow> DeepResearchSessionOptions \<Rightarrow> Controller" where
  "startController P options = \<lparr> session = new_session P options, runCalls = [] \<rparr>"

subsection \<open>A run in progress\<close>

text \<open>
  \<open>startedRun P t s\<close> is the session at the moment a call of \<^verbatim>\<open>run\<close> awaits the agent:
  its run state is the object number \<open>allocated s\<close> of the store. \<open>turnEnds\<close> counts the
  turn-boundary events of a sequence.
\<close>

definition startedRun :: "platform \<Rightarrow> RunTask \<Rightarrow> DeepResearchSession \<Rightarrow> DeepResearchSession" where
  "startedRun P t s = snd (run_after_mkdir P t True s)"

definition turnEnds :: "AgentEvent list \<Rightarrow> nat" where
  "turnEnds events = count_list events TurnEnd"

section \<open>The web search tool (tools/web-search.ts)\<close>

text \<open>
  The two providers (\<^verbatim>\<open>searchSemanticScholar\<close>, \<^verbatim>\<open>searchArxiv\<close>) call remote services. In the
  model a provider is a function from the query and the limit to what the call ends with:
  \<open>Inr\<close> the results it returns, or \<open>Inl\<close> the message of the error it throws
  (\<^verbatim>\<open>error instanceof Error ? error.message : String(error)\<close>). The result of the tool is
  \<open>Inl\<close> the message of the error thrown, or \<open>Inr\<close> the \<^verbatim>\<open>details\<close> returned; the text
  content, made from the same results by \<^verbatim>\<open>formatResults\<close>, is left out.
\<close>

record WebSearchResult =
  ws_title :: string
  ws_url :: string
  ws_snippet :: string
  ws_source :: string

record WebSearchToolInput =
  query :: string
  limit :: "int option"

record WebSearchToolDetails =
  d_query :: string
  d_results :: "WebSearchResult list"
  d_providerErrors :: "string list option"

type_synonym provider = "string \<Rightarrow> int \<Rightarrow> string + WebSearchResult list"

text \<open>
  \<^verbatim>\<open>xs.slice(0, end)\<close> for an integer \<open>end\<close>: a negative \<open>end\<close> counts from the end of
  the list.
\<close>

definition slice0 :: "'a list \<Rightarrow> int \<Rightarrow> 'a list" where
  "slice0 xs end = (if end < 0 then take (nat (int (length xs) + end)) xs else take (nat end) xs)"

text \<open>\<^verbatim>\<open>dedupeResults\<close>: the loop, with the set \<^verbatim>\<open>seen\<close> as its state.\<close>

fun dedupeFrom :: "string set \<Rightarrow> WebSearchResult list \<Rightarrow> WebSearchResult list" where
  "dedupeFrom seen [] = []"
| "dedupeFrom seen (result # results) =
     (if ws_url result \<in> seen then dedupeFrom seen results
      else result # dedupeFrom (insert (ws_url result) seen) results)"

definition dedupeResults :: "WebSearchResult list \<Rightarrow> WebSearchResult list" where
  "dedupeResults results = dedupeFrom {} results"

text \<open>
  The body of \<^verbatim>\<open>execute\<close> in two parts: \<open>aggregate\<close> is the two \<^verbatim>\<open>try\<close> blocks, giving the
  final \<^verbatim>\<open>results\<close> and \<^verbatim>\<open>providerErrors\<close>; \<open>web_search_execute\<close> is the whole of it.
\<close>

definition aggregate ::
  "provider \<Rightarrow> provider \<Rightarrow> string \<Rightarrow> int \<Rightarrow> WebSearchResult list \<times> string list" where
  "aggregate searchSemanticScholar searchArxiv q limit' =
     (let (results, providerErrors) =
            (case searchSemanticScholar q limit' of
               Inr rs \<Rightarrow> (rs, [])
             | Inl message \<Rightarrow> ([], [''semantic-scholar: '' @ message]))
      in if int (length results) < limit' then
           (case searchArxiv q limit' of
              Inr arxivResults \<Rightarrow>
                (slice0 (dedupeResults (results @ arxivResults)) limit', providerErrors)
            | Inl message \<Rightarrow> (results, providerErrors @ [''arxiv: '' @ message]))
         else (results, providerErrors))"

definition web_search_execute ::
  "provider \<Rightarrow> provider \<Rightarrow> WebSearchToolInput \<Rightarrow> string + WebSearchToolDetails" where
  "web_search_execute searchSemanticScholar searchArxiv params =
     (let q = trim (query params) in
      if length q = 0 then Inl ''Query must not be empty.''
      else
        let limit' = (case limit params of Some l \<Rightarrow> l | None \<Rightarrow> 5);
            (results, providerErrors) = aggregate searchSemanticScholar searchArxiv q limit'
        in if length results = 0 then
             Inl (''No search results available'' @
                  (if 0 < length providerErrors
                   then '' ('' @ join ''; '' providerErrors @ '')'' else []) @ ''.'')
           else Inr \<lparr> d_query = q, d_results = results,
                      d_providerErrors = (if 0 < length providerErrors then Some providerErrors
                                          else None) \<rparr>)"

definition effectiveLimit :: "WebSearchToolInput \<Rightarrow> int" where
  "effectiveLimit params = (case limit params of Some l \<Rightarrow> l | None \<Rightarrow> 5)"

section \<open>The extraction tool (tools/extract-source.ts)\<close>

text \<open>
  A call of \<^verbatim>\<open>fetch\<close> ends with a response or with a thrown error. The responses and
  errors that the calls of one extraction meet are its \<open>Network\<close>, one outcome for each
  place of the code that fetches: the first fetch (the record API of arXiv, or the source
  itself), the readability mirror asked by \<^verbatim>\<open>extractArxivSource\<close>, the mirror asked for a
  pdf, and the mirror asked last, when there is still no full text. The \<open>body\<close> of a
  response is \<open>None\<close> when reading it throws. The result of an extraction is \<open>Inl\<close> an
  error or \<open>Inr\<close> the details.
\<close>

definition MAX_ABSTRACT_CHARS :: nat where "MAX_ABSTRACT_CHARS = 1500"
definition MAX_FULL_TEXT_CHARS :: nat where "MAX_FULL_TEXT_CHARS = 30000"

datatype SourceType = Arxiv | Pdf | Html | Other

record ExtractSourceToolDetails =
  e_title :: string
  authors :: "string list option"
  year :: "nat option"
  abstract :: "string option"
  fullText :: "string option"
  sourceType :: SourceType
  canonicalUrl :: string
  missingFields :: "string list"

record HttpResponse =
  ok :: bool
  status :: nat
  statusText :: string
  resp_url :: string
  contentType :: "string option"
  body :: "string option"

datatype FetchOutcome = Rejected string | Resolved HttpResponse

datatype ExtractError =
    UrlEmpty
  | UrlInvalid string
  | ArxivFailed nat string
  | ArxivNoEntry
  | SourceFailed nat string
  | FetchFailed string
  | BodyFailed
  | UriMalformed

text \<open>
  Truthiness and \<^verbatim>\<open>a || b\<close> for an optional text and an optional number: \<^verbatim>\<open>undefined\<close>, the
  empty text and zero are falsy.
\<close>

definition truthyStr :: "string option \<Rightarrow> bool" where
  "truthyStr a = (case a of Some s \<Rightarrow> s \<noteq> [] | None \<Rightarrow> False)"

definition orStr :: "string option \<Rightarrow> string option \<Rightarrow> string option" where
  "orStr a b = (if truthyStr a then a else b)"

definition truthyNum :: "nat option \<Rightarrow> bool" where
  "truthyNum a = (case a of Some n \<Rightarrow> n \<noteq> 0 | None \<Rightarrow> False)"

definition orNum :: "nat option \<Rightarrow> nat option \<Rightarrow> nat option" where
  "orNum a b = (if truthyNum a then a else b)"

text \<open>\<^verbatim>\<open>match[k]\<close>, and \<^verbatim>\<open>s.replaceAll(p, r)\<close> for a text \<open>p\<close>.\<close>

definition group :: "string list \<Rightarrow> nat \<Rightarrow> string" where
  "group g k = (if k < length g then g ! k else [])"

function replaceAll :: "string \<Rightarrow> string \<Rightarrow> string \<Rightarrow> string" where
  "replaceAll p r [] = []"
| "replaceAll p r (c # cs) =
     (if p \<noteq> [] \<and> startsWith (c # cs) p then r @ replaceAll p r (drop (length p) (c # cs))
      else c # replaceAll p r cs)"
  by pat_completeness auto
termination
  by (relation "measure (\<lambda>(p, r, s). length s)") (auto simp: neq_Nil_conv)

definition decodeEntities :: "string \<Rightarrow> string" where
  "decodeEntities v =
     replaceAll ''&#39;'' [CHR 0x27]
       (replaceAll ''&quot;'' [CHR 0x22]
         (replaceAll ''&gt;'' ''>''
           (replaceAll ''&lt;'' ''<''
             (replaceAll ''&amp;'' ''&'' v))))"

definition normalizeWhitespace :: "string \<Rightarrow> string" where
  "normalizeWhitespace input = trim (replace_runs is_space '' '' input)"

definition clipText :: "platform \<Rightarrow> string \<Rightarrow> nat \<Rightarrow> string" where
  "clipText P input maxChars =
     (if length input \<le> maxChars then input
      else take (maxChars - 1) input @ ellipsis P)"

definition extractXmlTag :: "platform \<Rightarrow> string \<Rightarrow> string \<Rightarrow> string option" where
  "extractXmlTag P entry tagName =
     (case rx_match P (XmlTag tagName) entry of
        Some m \<Rightarrow> Some (decodeEntities (normalizeWhitespace (group m 1)))
      | None \<Rightarrow> None)"

definition classifySourceType :: "URL \<Rightarrow> string option \<Rightarrow> SourceType" where
  "classifySourceType u contentType' =
     (let normalizedContentType = toLowerCase (case contentType' of Some c \<Rightarrow> c | None \<Rightarrow> []);
          path = toLowerCase (pathname u)
      in if endsWith (hostname u) ''arxiv.org'' then Arxiv
         else if endsWith path ''.pdf'' \<or> includesStr normalizedContentType ''application/pdf''
         then Pdf
         else if endsWith path ''.html'' \<or> endsWith path ''.htm'' \<or>
                 includesStr normalizedContentType ''text/html'' \<or>
                 includesStr normalizedContentType ''application/xhtml+xml''
         then Html
         else Other)"

definition guessTitleFromUrl :: "platform \<Rightarrow> URL \<Rightarrow> ExtractError + string" where
  "guessTitleFromUrl P u =
     (case rev (filter (\<lambda>p. p \<noteq> []) (split_on (CHR ''/'') (pathname u))) of
        [] \<Rightarrow> Inr (hostname u)
      | pathPart # _ \<Rightarrow>
          (case decodeURIComponent P pathPart of
             None \<Rightarrow> Inl UriMalformed
           | Some decoded \<Rightarrow>
               Inr (replace_runs (\<lambda>c. c = CHR ''-'' \<or> c = CHR ''_'') '' '' decoded)))"

definition extractMetaContent :: "platform \<Rightarrow> string \<Rightarrow> string \<Rightarrow> string option" where
  "extractMetaContent P html key =
     (case rx_match P (MetaNameFirst key) html of
        Some directMatch \<Rightarrow> Some (decodeEntities (normalizeWhitespace (group directMatch 1)))
      | None \<Rightarrow>
          (case rx_match P (MetaContentFirst key) html of
             Some reverseMatch \<Rightarrow> Some (decodeEntities (normalizeWhitespace (group reverseMatch 1)))
           | None \<Rightarrow> None))"

fun firstOccurrences :: "string list \<Rightarrow> string list \<Rightarrow> string list" where
  "firstOccurrences seen [] = []"
| "firstOccurrences seen (v # vs) =
     (if 0 < length v \<and> v \<notin> set seen then v # firstOccurrences (v # seen) vs
      else firstOccurrences (v # seen) vs)"

definition extractMetaValues :: "platform \<Rightarrow> string \<Rightarrow> string \<Rightarrow> string list" where
  "extractMetaValues P html key =
     (let matches = rx_matchAll P (MetaNameFirst key) html @ rx_matchAll P (MetaContentFirst key) html
      in firstOccurrences [] (map (\<lambda>m. decodeEntities (normalizeWhitespace (group m 1))) matches))"

definition extractHtmlTitle :: "platform \<Rightarrow> string \<Rightarrow> string option" where
  "extractHtmlTitle P html =
     (case rx_match P HtmlTitle html of
        None \<Rightarrow> None
      | Some titleMatch \<Rightarrow> Some (decodeEntities (normalizeWhitespace (group titleMatch 1))))"

definition stripHtmlToText :: "platform \<Rightarrow> string \<Rightarrow> string" where
  "stripHtmlToText P html =
     (let withoutScript = rx_replace P NoscriptBlock '' ''
                            (rx_replace P StyleBlock '' '' (rx_replace P ScriptBlock '' '' html));
          textOnly = rx_replace P AnyTag '' '' withoutScript
      in decodeEntities (normalizeWhitespace textOnly))"

text \<open>\<^verbatim>\<open>Number.parseInt(s, 10)\<close> on a text of digits.\<close>

definition parseInt :: "string \<Rightarrow> nat" where
  "parseInt s = foldl (\<lambda>n c. 10 * n + (of_char c - 48)) 0 (takeWhile is_digit s)"

definition parseYear :: "platform \<Rightarrow> string option \<Rightarrow> nat option" where
  "parseYear P input =
     (case input of
        None \<Rightarrow> None
      | Some s \<Rightarrow>
          if s = [] then None
          else (case rx_match P YearPattern s of
                  None \<Rightarrow> None
                | Some m \<Rightarrow> Some (parseInt (group m 0))))"

definition fetchReadableMirror :: "platform \<Rightarrow> FetchOutcome \<Rightarrow> string option" where
  "fetchReadableMirror P outcome =
     (case outcome of
        Rejected e \<Rightarrow> None
      | Resolved response \<Rightarrow>
          if \<not> ok response then None
          else (case body response of
                  None \<Rightarrow> None
                | Some t \<Rightarrow>
                    let text = normalizeWhitespace t in
                    if length text = 0 then None
                    else Some (clipText P text MAX_FULL_TEXT_CHARS)))"

definition getMissingFields :: "ExtractSourceToolDetails \<Rightarrow> string list" where
  "getMissingFields details =
     (if (case authors details of None \<Rightarrow> True | Some a \<Rightarrow> length a = 0) then [''authors''] else []) @
     (if \<not> truthyNum (year details) then [''year''] else []) @
     (if \<not> truthyStr (abstract details) then [''abstract''] else []) @
     (if \<not> truthyStr (fullText details) then [''fullText''] else [])"

definition withMissingFields :: "ExtractSourceToolDetails \<Rightarrow> ExtractSourceToolDetails" where
  "withMissingFields details = details\<lparr> missingFields := getMissingFields details \<rparr>"

definition extractArxivSource ::
  "platform \<Rightarrow> string \<Rightarrow> FetchOutcome \<Rightarrow> FetchOutcome \<Rightarrow> ExtractError + ExtractSourceToolDetails" where
  "extractArxivSource P arxivId api mirror =
     (case api of
        Rejected e \<Rightarrow> Inl (FetchFailed e)
      | Resolved response \<Rightarrow>
          if \<not> ok response then Inl (ArxivFailed (status response) (statusText response))
          else (case body response of
            None \<Rightarrow> Inl BodyFailed
          | Some xml \<Rightarrow>
              (case rx_match P ArxivEntry xml of
                 None \<Rightarrow> Inl ArxivNoEntry
               | Some entryMatch \<Rightarrow>
                   let entry = group entryMatch 1;
                       canonicalUrl' = ''https://arxiv.org/abs/'' @ arxivId;
                       title = (case orStr (extractXmlTag P entry ''title'') (Some (''arXiv:'' @ arxivId)) of
                                  Some t \<Rightarrow> t | None \<Rightarrow> []);
                       summary = (case orStr (extractXmlTag P entry ''summary'') (Some []) of
                                    Some t \<Rightarrow> t | None \<Rightarrow> []);
                       abstract' = orStr (Some (clipText P summary MAX_ABSTRACT_CHARS)) None;
                       published = extractXmlTag P entry ''published'';
                       year' = parseYear P published;
                       authors' = filter (\<lambda>author. 0 < length author)
                                    (map (\<lambda>m. decodeEntities (normalizeWhitespace (group m 1)))
                                       (rx_matchAll P ArxivAuthor entry));
                       fullText' = fetchReadableMirror P mirror
                   in Inr (withMissingFields
                        \<lparr> e_title = title,
                          authors = (if 0 < length authors' then Some authors' else None),
                          year = year',
                          abstract = abstract',
                          fullText = fullText',
                          sourceType = Arxiv,
                          canonicalUrl = canonicalUrl',
                          missingFields = [] \<rparr>))))"

record Fields =
  f_title :: string
  f_authors :: "string list option"
  f_year :: "nat option"
  f_abstract :: "string option"
  f_fullText :: "string option"

definition metaAbstract :: "platform \<Rightarrow> string \<Rightarrow> string option" where
  "metaAbstract P html =
     orStr (orStr (extractMetaContent P html ''citation_abstract'')
                  (extractMetaContent P html ''description''))
           (extractMetaContent P html ''og:description'')"

definition htmlFields :: "platform \<Rightarrow> string \<Rightarrow> string \<Rightarrow> Fields" where
  "htmlFields P title0 html =
     (let title = (case orStr (orStr (extractHtmlTitle P html) (extractMetaContent P html ''og:title''))
                          (Some title0) of Some t \<Rightarrow> t | None \<Rightarrow> []);
          citationAuthors = extractMetaValues P html ''citation_author'';
          authors' = (if 0 < length citationAuthors then Some citationAuthors else None);
          year' = orNum (orNum (parseYear P (extractMetaContent P html ''citation_publication_date''))
                               (parseYear P (extractMetaContent P html ''article:published_time'')))
                        (parseYear P (extractMetaContent P html ''dc.date''));
          abstract0 = metaAbstract P html;
          abstract' = (case abstract0 of
                         Some a \<Rightarrow> if a \<noteq> [] then Some (clipText P a MAX_ABSTRACT_CHARS) else abstract0
                       | None \<Rightarrow> None);
          stripped = stripHtmlToText P html;
          fullText' = (if 0 < length stripped then Some (clipText P stripped MAX_FULL_TEXT_CHARS)
                       else None)
      in \<lparr> f_title = title, f_authors = authors', f_year = year', f_abstract = abstract',
           f_fullText = fullText' \<rparr>)"

definition primaryFields ::
  "platform \<Rightarrow> SourceType \<Rightarrow> string \<Rightarrow> HttpResponse \<Rightarrow> FetchOutcome \<Rightarrow> ExtractError + Fields" where
  "primaryFields P sourceType' title0 response mirror1 =
     (if sourceType' = Html \<or> sourceType' = Other then
        (case body response of
           None \<Rightarrow> Inl BodyFailed
         | Some html \<Rightarrow> Inr (htmlFields P title0 html))
      else if sourceType' = Pdf then
        Inr \<lparr> f_title = title0, f_authors = None, f_year = None, f_abstract = None,
              f_fullText = fetchReadableMirror P mirror1 \<rparr>
      else
        Inr \<lparr> f_title = title0, f_authors = None, f_year = None, f_abstract = None,
              f_fullText = None \<rparr>)"

definition finishGeneric ::
  "platform \<Rightarrow> Fields \<Rightarrow> SourceType \<Rightarrow> string \<Rightarrow> FetchOutcome \<Rightarrow> ExtractSourceToolDetails" where
  "finishGeneric P f sourceType' canonicalUrl' mirror2 =
     (let abstract' = (if \<not> truthyStr (f_abstract f) \<and> truthyStr (f_fullText f)
                       then Some (clipText P (case f_fullText f of Some t \<Rightarrow> t | None \<Rightarrow> [])
                                    MAX_ABSTRACT_CHARS)
                       else f_abstract f);
          fullText' = (if \<not> truthyStr (f_fullText f) then fetchReadableMirror P mirror2
                       else f_fullText f)
      in withMissingFields
           \<lparr> e_title = f_title f, authors = f_authors f, year = f_year f, abstract = abstract',
             fullText = fullText', sourceType = sourceType', canonicalUrl = canonicalUrl',
             missingFields = [] \<rparr>)"

definition extractGenericSource ::
  "platform \<Rightarrow> FetchOutcome \<Rightarrow> FetchOutcome \<Rightarrow> FetchOutcome \<Rightarrow>
     ExtractError + ExtractSourceToolDetails" where
  "extractGenericSource P page mirror1 mirror2 =
     (case page of
        Rejected e \<Rightarrow> Inl (FetchFailed e)
      | Resolved response \<Rightarrow>
          if \<not> ok response then Inl (SourceFailed (status response) (statusText response))
          else (case parseUrl P (resp_url response) of
            None \<Rightarrow> Inl (UrlInvalid (resp_url response))
          | Some canonical \<Rightarrow>
              let sourceType' = classifySourceType canonical (contentType response) in
              (case guessTitleFromUrl P canonical of
                 Inl e \<Rightarrow> Inl e
               | Inr title0 \<Rightarrow>
                   (case primaryFields P sourceType' title0 response mirror1 of
                      Inl e \<Rightarrow> Inl e
                    | Inr f \<Rightarrow> Inr (finishGeneric P f sourceType' (resp_url response) mirror2)))))"

record ExtractSourceToolInput =
  url_input :: string

record Network =
  firstFetch :: FetchOutcome
  arxivMirror :: FetchOutcome
  pdfMirror :: FetchOutcome
  fallbackMirror :: FetchOutcome

definition extract_source_execute ::
  "platform \<Rightarrow> ExtractSourceToolInput \<Rightarrow> Network \<Rightarrow> ExtractError + ExtractSourceToolDetails" where
  "extract_source_execute P params net =
     (let normalizedInput = trim (url_input params) in
      if length normalizedInput = 0 then Inl UrlEmpty
      else case parseUrl P normalizedInput of
        None \<Rightarrow> Inl (UrlInvalid normalizedInput)
      | Some u \<Rightarrow>
          (case parseArxivId u of
             Some arxivId \<Rightarrow>
               if arxivId \<noteq> [] then extractArxivSource P arxivId (firstFetch net) (arxivMirror net)
               else extractGenericSource P (firstFetch net) (pdfMirror net) (fallbackMirror net)
           | None \<Rightarrow> extractGenericSource P (firstFetch net) (pdfMirror net) (fallbackMirror net)))"

text \<open>
  For the statements below: \<open>setContentType\<close> gives a response another
  \<^verbatim>\<open>content-type\<close> header, and \<open>mirrorFails\<close> says of the outcome of a fetch of the
  readability mirror that it is a failure in the words of the specification: a thrown
  error, a status that is not ok, a body that cannot be read or that is empty once its
  white space is normalized.
\<close>

definition setContentType :: "string option \<Rightarrow> FetchOutcome \<Rightarrow> FetchOutcome" where
  "setContentType ct outcome =
     (case outcome of
        Rejected e \<Rightarrow> Rejected e
      | Resolved response \<Rightarrow> Resolved (response\<lparr> contentType := ct \<rparr>))"

definition mirrorFails :: "FetchOutcome \<Rightarrow> bool" where
  "mirrorFails outcome =
     (case outcome of
        Rejected e \<Rightarrow> True
      | Resolved response \<Rightarrow>
          \<not> ok response \<or>
          (case body response of None \<Rightarrow> True | Some t \<Rightarrow> normalizeWhitespace t = []))"

section \<open>Example values\<close>

text \<open>
  A small platform, a task and a session, for the instances of the theorems below: the
  parser knows four URLs, paths are joined with a slash, the clock shows one second more
  after its first reading, decoding leaves a text as it is (right for a text without a
  percent sign), and the engine finds no match (right for the empty text, the only text
  the instances give it).
\<close>

definition knownUrls :: "(string \<times> URL) list" where
  "knownUrls =
     [(''https://arxiv.org/abs/1706.03762'',
       \<lparr> hostname = ''arxiv.org'', pathname = ''/abs/1706.03762'',
         href = ''https://arxiv.org/abs/1706.03762'' \<rparr>),
      (''https://arxiv.org/list/cs.CL/recent'',
       \<lparr> hostname = ''arxiv.org'', pathname = ''/list/cs.CL/recent'',
         href = ''https://arxiv.org/list/cs.CL/recent'' \<rparr>),
      (''https://example.org/paper.pdf'',
       \<lparr> hostname = ''example.org'', pathname = ''/paper.pdf'',
         href = ''https://example.org/paper.pdf'' \<rparr>),
      (''https://example.org/empty'',
       \<lparr> hostname = ''example.org'', pathname = ''/empty'',
         href = ''https://example.org/empty'' \<rparr>)]"

definition testPlatform :: platform where
  "testPlatform =
     \<lparr> parseUrl = map_of knownUrls,
       path_resolve = (\<lambda>segments. join ''/'' segments),
       path_isAbsolute = (\<lambda>p. startsWith p ''/''),
       path_sep = ''/'',
       path_join = (\<lambda>segments. join ''/'' segments),
       path_relative = (\<lambda>root p. drop (Suc (length root)) p),
       cwd = ''/work'',
       now = (\<lambda>k. if k = 0 then ''2026-01-01T00:00:00.000Z'' else ''2026-01-01T00:00:01.000Z''),
       decodeURIComponent = (\<lambda>s. Some s),
       rx_match = (\<lambda>p s. None),
       rx_matchAll = (\<lambda>p s. []),
       rx_replace = (\<lambda>p r s. s),
       ellipsis = ''...'' \<rparr>"

definition testTask :: RunTask where
  "testTask =
     \<lparr> t_seedUrl = \<lparr> hostname = ''arxiv.org'', pathname = ''/abs/1706.03762'',
                       href = ''https://arxiv.org/abs/1706.03762'' \<rparr>,
       t_paperSlug = ''arxiv-1706-03762'',
       t_reportDirectory = ''/work/reports/arxiv-1706-03762'',
       t_reportPath = ''/work/reports/arxiv-1706-03762/report.md'',
       t_reportHtmlPath = ''/work/reports/arxiv-1706-03762/report.html'',
       t_sourcesPath = ''/work/reports/arxiv-1706-03762/sources.json'',
       t_runState = None \<rparr>"

definition testOptions :: "number option \<Rightarrow> DeepResearchSessionOptions" where
  "testOptions m = \<lparr> opt_workingDirectory = None, opt_reportsRoot = None, opt_maxTurns = m \<rparr>"

definition testObservation :: SourceInput where
  "testObservation =
     \<lparr> in_url = ''https://arxiv.org/abs/1706.03762'',
       in_title = JStr ''Attention Is All You Need'',
       in_source = JStr ''arxiv'',
       in_snippet = JStr ''The dominant sequence transduction models'' \<rparr>"

definition testSession :: "number option \<Rightarrow> DeepResearchSession" where
  "testSession m = startedRun testPlatform testTask (new_session testPlatform (testOptions m))"

definition attentionUrl :: URL where
  "attentionUrl = \<lparr> hostname = ''arxiv.org'', pathname = ''/abs/1706.03762'',
                     href = ''https://arxiv.org/abs/1706.03762'' \<rparr>"

definition oldStyleUrl :: URL where
  "oldStyleUrl = \<lparr> hostname = ''arxiv.org'', pathname = ''/abs/math.GT/0309136'',
                    href = ''https://arxiv.org/abs/math.GT/0309136'' \<rparr>"

definition exampleReport :: string where
  "exampleReport = join [CHR 0x0A]
     [''# Paper'',
      ''Attention Is All You Need'',
      ''## 1. Key Problems and Challenges'',
      ''Recurrent models are slow to train.'',
      ''## 2. How This Paper Solves Them'',
      ''Self-attention replaces recurrence.'',
      ''## 3. Related Work and Key Differences'',
      ''In contrast to [3], our method uses no recurrence.'',
      ''## 4. Future Directions'',
      ''Longer inputs.'']"

definition paperA :: WebSearchResult where
  "paperA = \<lparr> ws_title = ''Attention Is All You Need'', ws_url = ''http://arxiv.org/abs/1706.03762v7'',
              ws_snippet = ''The dominant sequence transduction models'', ws_source = ''arxiv'' \<rparr>"

definition paperB :: WebSearchResult where
  "paperB = \<lparr> ws_title = ''Neural Machine Translation'', ws_url = ''http://arxiv.org/abs/1409.0473v7'',
              ws_snippet = ''Neural machine translation is a recently proposed approach'',
              ws_source = ''arxiv'' \<rparr>"

definition paperA' :: WebSearchResult where
  "paperA' = paperA\<lparr> ws_title := ''Attention Is All You Need (v7)'' \<rparr>"

definition primaryDown :: provider where
  "primaryDown = (\<lambda>q l. Inl ''Semantic Scholar returned 429 Too Many Requests'')"

definition attentionQuery :: WebSearchToolInput where
  "attentionQuery = \<lparr> query = ''attention'', limit = Some 5 \<rparr>"

definition blankQuery :: WebSearchToolInput where
  "blankQuery = \<lparr> query = '' '', limit = Some 5 \<rparr>"

definition okResponse :: "string \<Rightarrow> string option \<Rightarrow> string \<Rightarrow> FetchOutcome" where
  "okResponse u ct b =
     Resolved \<lparr> ok = True, status = 200, statusText = ''OK'', resp_url = u, contentType = ct,
                body = Some b \<rparr>"

definition notFound :: "string \<Rightarrow> FetchOutcome" where
  "notFound u =
     Resolved \<lparr> ok = False, status = 404, statusText = ''Not Found'', resp_url = u,
                contentType = Some ''text/html'', body = Some ''Not Found'' \<rparr>"

definition unusedFetch :: FetchOutcome where
  "unusedFetch = Rejected ''not requested''"

definition pdfThenRetry :: Network where
  "pdfThenRetry =
     \<lparr> firstFetch = okResponse ''https://example.org/paper.pdf'' (Some ''application/pdf'') ''%PDF-1.7'',
       arxivMirror = unusedFetch,
       pdfMirror = Rejected ''fetch failed'',
       fallbackMirror = okResponse ''https://r.jina.ai/https://example.org/paper.pdf''
                          (Some ''text/plain'') ''Title  of the   paper'' \<rparr>"

definition emptyPage :: Network where
  "emptyPage =
     \<lparr> firstFetch = okResponse ''https://example.org/empty'' (Some ''text/html'') [],
       arxivMirror = unusedFetch,
       pdfMirror = unusedFetch,
       fallbackMirror = okResponse ''https://r.jina.ai/https://example.org/empty''
                          (Some ''text/plain'') ''Rendered text'' \<rparr>"

definition pdfMirrorDown :: Network where
  "pdfMirrorDown = pdfThenRetry\<lparr> fallbackMirror := notFound ''https://r.jina.ai/https://example.org/paper.pdf'' \<rparr>"

definition listingNotFound :: Network where
  "listingNotFound =
     \<lparr> firstFetch = notFound ''https://arxiv.org/list/cs.CL/recent'',
       arxivMirror = unusedFetch, pdfMirror = unusedFetch, fallbackMirror = unusedFetch \<rparr>"

definition listingPage :: Network where
  "listingPage =
     \<lparr> firstFetch = okResponse ''https://arxiv.org/list/cs.CL/recent'' (Some ''text/html'') [],
       arxivMirror = unusedFetch, pdfMirror = unusedFetch, fallbackMirror = unusedFetch \<rparr>"

definition apiDown :: Network where
  "apiDown =
     \<lparr> firstFetch = notFound ''https://export.arxiv.org/api/query?id_list=1706.03762'',
       arxivMirror = unusedFetch, pdfMirror = unusedFetch, fallbackMirror = unusedFetch \<rparr>"

definition paperPdfUrl :: URL where
  "paperPdfUrl = \<lparr> hostname = ''example.org'', pathname = ''/paper.pdf'',
                    href = ''https://example.org/paper.pdf'' \<rparr>"

definition listingUrl :: URL where
  "listingUrl = \<lparr> hostname = ''arxiv.org'', pathname = ''/list/cs.CL/recent'',
                   href = ''https://arxiv.org/list/cs.CL/recent'' \<rparr>"

definition pdfMirrorRecovers :: Network where
  "pdfMirrorRecovers = pdfThenRetry\<lparr> pdfMirror := notFound ''https://r.jina.ai/https://example.org/paper.pdf'' \<rparr>"

definition pdfMirrorUp :: Network where
  "pdfMirrorUp = pdfThenRetry\<lparr> pdfMirror := fallbackMirror pdfThenRetry \<rparr>"

section \<open>Properties of the session controller\<close>

subsection \<open>What event handling leaves alone\<close>

lemma js_or_idem: "js_or a a = a" by (simp add: js_or_def)
lemma js_or_absorb: "js_or (js_or a b) b = js_or a b" by (simp add: js_or_def)

lemma addSource_frame:
  "currentRun (addSource P src s) = currentRun s"
  "maxTurns (addSource P src s) = maxTurns s"
  "agentCalls (addSource P src s) = agentCalls s"
  "emitted (addSource P src s) = emitted s"
  "allocated (addSource P src s) = allocated s"
  "turnCount (runStates (addSource P src s) a) = turnCount (runStates s a)"
  "maxTurnsExceeded (runStates (addSource P src s) a) = maxTurnsExceeded (runStates s a)"
  by (auto simp: addSource_def Let_def split: option.splits)

lemma fold_addSource_frame:
  "currentRun (fold (\<lambda>x. addSource P (f x)) xs s) = currentRun s \<and>
   maxTurns (fold (\<lambda>x. addSource P (f x)) xs s) = maxTurns s \<and>
   agentCalls (fold (\<lambda>x. addSource P (f x)) xs s) = agentCalls s \<and>
   emitted (fold (\<lambda>x. addSource P (f x)) xs s) = emitted s \<and>
   allocated (fold (\<lambda>x. addSource P (f x)) xs s) = allocated s \<and>
   turnCount (runStates (fold (\<lambda>x. addSource P (f x)) xs s) a) = turnCount (runStates s a) \<and>
   maxTurnsExceeded (runStates (fold (\<lambda>x. addSource P (f x)) xs s) a) = maxTurnsExceeded (runStates s a)"
  by (induction xs arbitrary: s) (simp_all add: addSource_frame)

lemma ingestToolSources_frame:
  "currentRun (ingestToolSources P n r s) = currentRun s"
  "maxTurns (ingestToolSources P n r s) = maxTurns s"
  "agentCalls (ingestToolSources P n r s) = agentCalls s"
  "emitted (ingestToolSources P n r s) = emitted s"
  "allocated (ingestToolSources P n r s) = allocated s"
  "turnCount (runStates (ingestToolSources P n r s) a) = turnCount (runStates s a)"
  "maxTurnsExceeded (runStates (ingestToolSources P n r s) a) = maxTurnsExceeded (runStates s a)"
  by (simp_all add: ingestToolSources_def Let_def addSource_frame fold_addSource_frame)

lemma abortRequests_simps:
  "abortRequests (abort s) = Suc (abortRequests s)"
  "abortRequests (emit e s) = abortRequests s"
  "abortRequests (s\<lparr>runStates := rs\<rparr>) = abortRequests s"
  by (simp_all add: abortRequests_def abort_def agent_call_def emit_def)

lemma reaches_mono: "reaches m cap \<Longrightarrow> m \<le> n \<Longrightarrow> reaches n cap"
  by (cases cap) (auto simp: reaches_def)

lemma reaches_whole: "reaches k (Finite (real n)) = (n \<le> k)"
  by (simp add: reaches_def)

lemma reaches_NaN: "\<not> reaches k NaN"
  by (simp add: reaches_def)

lemma not_reached_at_start:
  "cap = NaN \<or> js_ge cap (Finite 1) \<Longrightarrow> \<not> reaches 0 cap"
  by (cases cap) (auto simp: reaches_def)

lemma math_max_one:
  "math_max (Finite 1) NaN = NaN"
  "math_max (Finite 1) Infinity = Infinity"
  "math_max (Finite 1) NegInfinity = Finite 1"
  "math_max (Finite 1) (Finite x) = Finite (max 1 x)"
  by (auto simp: math_max_def)

lemma new_session_cap:
  "maxTurns (new_session P options) = NaN \<or> js_ge (maxTurns (new_session P options)) (Finite 1)"
proof (cases "opt_maxTurns options")
  case None
  then show ?thesis by (simp add: new_session_def math_max_one)
next
  case (Some n)
  then show ?thesis by (cases n) (simp_all add: new_session_def math_max_one)
qed

lemma new_session_cap_number:
  assumes "opt_maxTurns options \<noteq> Some NaN"
  shows "js_ge (maxTurns (new_session P options)) (Finite 1)"
    and "opt_maxTurns options = None \<Longrightarrow> maxTurns (new_session P options) = Finite 24"
    and "opt_maxTurns options = Some (Finite x) \<Longrightarrow>
           maxTurns (new_session P options) = Finite (max 1 x)"
proof -
  show "js_ge (maxTurns (new_session P options)) (Finite 1)"
  proof (cases "opt_maxTurns options")
    case None
    then show ?thesis by (simp add: new_session_def math_max_one)
  next
    case (Some n)
    then show ?thesis using assms by (cases n) (simp_all add: new_session_def math_max_one)
  qed
  show "opt_maxTurns options = None \<Longrightarrow> maxTurns (new_session P options) = Finite 24"
    by (simp add: new_session_def math_max_one)
  show "opt_maxTurns options = Some (Finite x) \<Longrightarrow>
           maxTurns (new_session P options) = Finite (max 1 x)"
    by (simp add: new_session_def math_max_one)
qed

lemma countTurn_props:
  assumes "currentRun s = Some a"
  shows "currentRun (countTurn s) = Some a"
    and "maxTurns (countTurn s) = maxTurns s"
    and "turnCount (runStates (countTurn s) a) = Suc (turnCount (runStates s a))"
    and "maxTurnsExceeded (runStates (countTurn s) a) =
           (maxTurnsExceeded (runStates s a) \<or> reaches (Suc (turnCount (runStates s a))) (maxTurns s))"
    and "abortRequests (countTurn s) = abortRequests s +
           (if \<not> maxTurnsExceeded (runStates s a) \<and> reaches (Suc (turnCount (runStates s a))) (maxTurns s)
            then 1 else 0)"
  using assms
  by (auto simp: countTurn_def Let_def abort_def agent_call_def abortRequests_def)

lemma handleAgentEvent_props:
  assumes "currentRun s = Some a"
  shows "currentRun (handleAgentEvent P ev s) = Some a"
    and "maxTurns (handleAgentEvent P ev s) = maxTurns s"
    and "turnCount (runStates (handleAgentEvent P ev s) a) =
           turnCount (runStates s a) + (if ev = TurnEnd then 1 else 0)"
    and "maxTurnsExceeded (runStates (handleAgentEvent P ev s) a) =
           (maxTurnsExceeded (runStates s a) \<or>
            (ev = TurnEnd \<and> reaches (Suc (turnCount (runStates s a))) (maxTurns s)))"
    and "abortRequests (handleAgentEvent P ev s) = abortRequests s +
           (if ev = TurnEnd \<and> \<not> maxTurnsExceeded (runStates s a) \<and>
               reaches (Suc (turnCount (runStates s a))) (maxTurns s)
            then 1 else 0)"
  using assms countTurn_props[OF assms]
  by (cases ev; simp add: handleAgentEvent_def Let_def emit_def ingestToolSources_frame abortRequests_def)+

lemma handleAgentEvents_props:
  assumes "currentRun s = Some a"
  shows "currentRun (handleAgentEvents P evs s) = Some a \<and>
     maxTurns (handleAgentEvents P evs s) = maxTurns s \<and>
     turnCount (runStates (handleAgentEvents P evs s) a) =
        turnCount (runStates s a) + count_list evs TurnEnd \<and>
     maxTurnsExceeded (runStates (handleAgentEvents P evs s) a) =
        (maxTurnsExceeded (runStates s a) \<or>
         (0 < count_list evs TurnEnd \<and>
          reaches (turnCount (runStates s a) + count_list evs TurnEnd) (maxTurns s))) \<and>
     abortRequests (handleAgentEvents P evs s) = abortRequests s +
        (if \<not> maxTurnsExceeded (runStates s a) \<and> 0 < count_list evs TurnEnd \<and>
            reaches (turnCount (runStates s a) + count_list evs TurnEnd) (maxTurns s)
         then 1 else 0)"
  using assms
proof (induction evs arbitrary: s)
  case Nil
  then show ?case by (simp add: handleAgentEvents_def)
next
  case (Cons ev evs)
  note h = handleAgentEvent_props[OF Cons.prems, of P ev]
  note ih = Cons.IH[OF h(1), unfolded h(2)]
  have unf: "handleAgentEvents P (ev # evs) s = handleAgentEvents P evs (handleAgentEvent P ev s)"
    by (simp add: handleAgentEvents_def)
  have up: "reaches (Suc (turnCount (runStates s a))) (maxTurns s) \<Longrightarrow>
            reaches (Suc (turnCount (runStates s a) + count_list evs TurnEnd)) (maxTurns s)"
    by (erule reaches_mono) simp
  show ?case
  proof (cases "ev = TurnEnd")
    case True
    show ?thesis
      unfolding unf using ih h(3,4,5) True up
      by (cases "count_list evs TurnEnd = 0") auto
  next
    case False
    show ?thesis
      unfolding unf using ih h(3,4,5) False by auto
  qed
qed


lemma startedRun_props:
  "currentRun (startedRun P t s) = Some (allocated s)"
  "maxTurns (startedRun P t s) = maxTurns s"
  "turnCount (runStates (startedRun P t s) (allocated s)) = 0"
  "maxTurnsExceeded (runStates (startedRun P t s) (allocated s)) = False"
  "abortRequests (startedRun P t s) = abortRequests s"
  by (simp_all add: startedRun_def run_after_mkdir_def Let_def addSource_def agent_call_def
        emptyRunState_def abortRequests_def)

lemma turnEnds_snoc: "turnEnds (events @ [ev]) = turnEnds events + (if ev = TurnEnd then 1 else 0)"
  by (simp add: turnEnds_def)

lemma handleAgentEvents_snoc:
  "handleAgentEvents P (events @ [ev]) s = handleAgentEvent P ev (handleAgentEvents P events s)"
  by (simp add: handleAgentEvents_def)

lemma turnEnds_replicate: "turnEnds (replicate n TurnEnd) = n"
  by (induction n) (simp_all add: turnEnds_def)

lemma run_events:
  assumes "\<not> reaches 0 (maxTurns s)"
  shows "turnCount (runStates (handleAgentEvents P events (startedRun P t s)) (allocated s))
           = turnEnds events"
    and "maxTurnsExceeded (runStates (handleAgentEvents P events (startedRun P t s)) (allocated s))
           = reaches (turnEnds events) (maxTurns s)"
    and "abortRequests (handleAgentEvents P events (startedRun P t s))
           = abortRequests s + (if reaches (turnEnds events) (maxTurns s) then 1 else 0)"
proof -
  note st = startedRun_props[of P t s]
  note all = handleAgentEvents_props[OF st(1), of P events, unfolded st turnEnds_def[symmetric]]
  show "turnCount (runStates (handleAgentEvents P events (startedRun P t s)) (allocated s))
           = turnEnds events"
    using all by simp
  show "maxTurnsExceeded (runStates (handleAgentEvents P events (startedRun P t s)) (allocated s))
           = reaches (turnEnds events) (maxTurns s)"
    using all assms by (cases "turnEnds events = 0") auto
  show "abortRequests (handleAgentEvents P events (startedRun P t s))
           = abortRequests s + (if reaches (turnEnds events) (maxTurns s) then 1 else 0)"
    using all assms by (cases "turnEnds events = 0") auto
qed

subsection \<open>The turn cap\<close>

text \<open>
  Claim C1. In a run of a session whose turn cap is a number that is at least one, or is
  not a number (the constructor leaves no other cap), after any sequence of agent events
  the turn count is the number of turn-boundary events, the run is marked as over the cap
  exactly when that number has reached the cap (\<open>reaches k cap\<close> is the test
  \<^verbatim>\<open>turnCount >= maxTurns\<close> of the source; for a whole cap \<open>n\<close> it is \<open>n \<le> k\<close>), and the
  number of cancellation requests made on the agent has grown by one if the cap was reached
  and by nothing otherwise. One more event adds a request only when it is the
  turn-boundary event that brings the count to the cap: later turn boundaries add none.
\<close>

theorem turn_cap_cancels_exactly_once:
  assumes "maxTurns s = NaN \<or> js_ge (maxTurns s) (Finite 1)"
  shows "turnCount (runStates (handleAgentEvents P events (startedRun P t s)) (allocated s))
           = turnEnds events
    \<and> maxTurnsExceeded (runStates (handleAgentEvents P events (startedRun P t s)) (allocated s))
           = reaches (turnEnds events) (maxTurns s)
    \<and> abortRequests (handleAgentEvents P events (startedRun P t s))
           = abortRequests s + (if reaches (turnEnds events) (maxTurns s) then 1 else 0)
    \<and> abortRequests (handleAgentEvents P (events @ [ev]) (startedRun P t s))
           = abortRequests (handleAgentEvents P events (startedRun P t s))
             + (if ev = TurnEnd \<and> \<not> reaches (turnEnds events) (maxTurns s)
                   \<and> reaches (turnEnds events + 1) (maxTurns s) then 1 else 0)
    \<and> (\<forall>n. maxTurns s = Finite (real n) \<longrightarrow>
          reaches (turnEnds events) (maxTurns s) = (n \<le> turnEnds events)
          \<and> (\<not> reaches (turnEnds events) (maxTurns s) \<and> reaches (turnEnds events + 1) (maxTurns s))
              = (turnEnds events + 1 = n))"
proof -
  have z: "\<not> reaches 0 (maxTurns s)"
    using assms by (rule not_reached_at_start)
  note R = run_events[OF z, of P _ t]
  have a: "turnCount (runStates (handleAgentEvents P events (startedRun P t s)) (allocated s))
           = turnEnds events"
    by (rule R(1))
  have b: "maxTurnsExceeded (runStates (handleAgentEvents P events (startedRun P t s)) (allocated s))
           = reaches (turnEnds events) (maxTurns s)"
    by (rule R(2))
  have c: "abortRequests (handleAgentEvents P events (startedRun P t s))
           = abortRequests s + (if reaches (turnEnds events) (maxTurns s) then 1 else 0)" for events
    by (rule R(3))
  have d: "abortRequests (handleAgentEvents P (events @ [ev]) (startedRun P t s))
           = abortRequests (handleAgentEvents P events (startedRun P t s))
             + (if ev = TurnEnd \<and> \<not> reaches (turnEnds events) (maxTurns s)
                   \<and> reaches (turnEnds events + 1) (maxTurns s) then 1 else 0)"
    unfolding c turnEnds_snoc
    using reaches_mono[of "turnEnds events" "maxTurns s" "turnEnds events + 1"] by auto
  have e: "\<forall>n. maxTurns s = Finite (real n) \<longrightarrow>
          reaches (turnEnds events) (maxTurns s) = (n \<le> turnEnds events)
          \<and> (\<not> reaches (turnEnds events) (maxTurns s) \<and> reaches (turnEnds events + 1) (maxTurns s))
              = (turnEnds events + 1 = n)"
    by (auto simp: reaches_whole)
  from a b c d e show ?thesis by blast
qed

text \<open>With a cap of three: no request after two turns, one after three, still one after four.\<close>

theorem turn_cap_cancels_exactly_once_witness:
  "js_ge (maxTurns (new_session testPlatform (testOptions (Some (Finite 3))))) (Finite 1)
   \<and> abortRequests (handleAgentEvents testPlatform [TurnEnd, TurnEnd]
        (startedRun testPlatform testTask (new_session testPlatform (testOptions (Some (Finite 3)))))) = 0
   \<and> abortRequests (handleAgentEvents testPlatform [TurnEnd, TurnEnd, TurnEnd]
        (startedRun testPlatform testTask (new_session testPlatform (testOptions (Some (Finite 3)))))) = 1
   \<and> abortRequests (handleAgentEvents testPlatform ([TurnEnd, TurnEnd, TurnEnd] @ [TurnEnd])
        (startedRun testPlatform testTask (new_session testPlatform (testOptions (Some (Finite 3)))))) = 1"
proof -
  have m: "maxTurns (new_session testPlatform (testOptions (Some (Finite 3)))) = Finite 3"
    by (simp add: new_session_def testOptions_def math_max_one)
  have z: "abortRequests (new_session testPlatform (testOptions (Some (Finite 3)))) = 0"
    by (simp add: new_session_def abortRequests_def)
  have g: "js_ge (maxTurns (new_session testPlatform (testOptions (Some (Finite 3))))) (Finite 1)"
    by (simp add: m)
  then have h: "maxTurns (new_session testPlatform (testOptions (Some (Finite 3)))) = NaN
      \<or> js_ge (maxTurns (new_session testPlatform (testOptions (Some (Finite 3))))) (Finite 1)"
    by simp
  have t2: "turnEnds [TurnEnd, TurnEnd] = 2" and t3: "turnEnds [TurnEnd, TurnEnd, TurnEnd] = 3"
    by (simp_all add: turnEnds_def)
  have r: "\<not> reaches 2 (Finite 3)" "reaches 3 (Finite 3)" "reaches (3 + 1) (Finite 3)"
    by (simp_all add: reaches_def)
  note T2 = turn_cap_cancels_exactly_once[OF h, of testPlatform "[TurnEnd, TurnEnd]" testTask TurnEnd,
              unfolded m z t2]
  note T3 = turn_cap_cancels_exactly_once[OF h, of testPlatform "[TurnEnd, TurnEnd, TurnEnd]" testTask TurnEnd,
              unfolded m z t3]
  have a2: "abortRequests (handleAgentEvents testPlatform [TurnEnd, TurnEnd]
        (startedRun testPlatform testTask (new_session testPlatform (testOptions (Some (Finite 3)))))) = 0"
    using T2[THEN conjunct2, THEN conjunct2, THEN conjunct1] r(1) by simp
  have a3: "abortRequests (handleAgentEvents testPlatform [TurnEnd, TurnEnd, TurnEnd]
        (startedRun testPlatform testTask (new_session testPlatform (testOptions (Some (Finite 3)))))) = 1"
    using T3[THEN conjunct2, THEN conjunct2, THEN conjunct1] r(2) by simp
  have a4: "abortRequests (handleAgentEvents testPlatform ([TurnEnd, TurnEnd, TurnEnd] @ [TurnEnd])
        (startedRun testPlatform testTask (new_session testPlatform (testOptions (Some (Finite 3)))))) = 1"
    using T3[THEN conjunct2, THEN conjunct2, THEN conjunct2, THEN conjunct1] a3 r(2) by simp
  from g a2 a3 a4 show ?thesis by blast
qed

subsection \<open>The effective turn cap\<close>

text \<open>
  For every option that is a number, and for an absent option, the cap of a new session is
  at least one: it is 24 for an absent option and the larger of one and the option
  otherwise (lemma \<open>new_session_cap_number\<close>). Whatever the option, no cancellation is
  requested before the first turn-boundary event of a run.
\<close>

lemma no_cancellation_before_first_turn:
  assumes "turnEnds events = 0"
  shows "abortRequests (handleAgentEvents P events (startedRun P t (new_session P options))) = 0"
    and "\<not> maxTurnsExceeded
            (runStates (handleAgentEvents P events (startedRun P t (new_session P options))) 0)"
proof -
  have a0: "abortRequests (new_session P options) = 0" "allocated (new_session P options) = 0"
    by (simp_all add: new_session_def abortRequests_def)
  have z: "\<not> reaches 0 (maxTurns (new_session P options))"
    using new_session_cap[of P options] by (rule not_reached_at_start)
  note R = run_events[OF z, of P events t, unfolded a0 assms]
  show "abortRequests (handleAgentEvents P events (startedRun P t (new_session P options))) = 0"
    using R(3) z by simp
  show "\<not> maxTurnsExceeded
            (runStates (handleAgentEvents P events (startedRun P t (new_session P options))) 0)"
    using R(2) z by simp
qed

text \<open>
  Claim C9. The option \<^verbatim>\<open>maxTurns: NaN\<close> is a number, and the constructor takes it:
  \<^verbatim>\<open>Math.max(1, NaN)\<close> is not a number, so the cap of the session is not at least one. The
  test \<^verbatim>\<open>turnCount >= maxTurns\<close> then fails at every turn: after 25 turn-boundary events,
  one more than the default cap allows, the run is not marked as over the cap and no
  cancellation has been requested.
\<close>

theorem nan_option_disables_turn_cap:
  "maxTurns (new_session testPlatform (testOptions (Some NaN))) = NaN
   \<and> \<not> js_ge (maxTurns (new_session testPlatform (testOptions (Some NaN)))) (Finite 1)
   \<and> turnCount (runStates (handleAgentEvents testPlatform (replicate 25 TurnEnd)
        (startedRun testPlatform testTask (new_session testPlatform (testOptions (Some NaN))))) 0) = 25
   \<and> \<not> maxTurnsExceeded (runStates (handleAgentEvents testPlatform (replicate 25 TurnEnd)
        (startedRun testPlatform testTask (new_session testPlatform (testOptions (Some NaN))))) 0)
   \<and> abortRequests (handleAgentEvents testPlatform (replicate 25 TurnEnd)
        (startedRun testPlatform testTask (new_session testPlatform (testOptions (Some NaN))))) = 0"
proof -
  have m: "maxTurns (new_session testPlatform (testOptions (Some NaN))) = NaN"
    by (simp add: new_session_def testOptions_def math_max_one)
  have a0: "abortRequests (new_session testPlatform (testOptions (Some NaN))) = 0"
      "allocated (new_session testPlatform (testOptions (Some NaN))) = 0"
    by (simp_all add: new_session_def abortRequests_def)
  have z: "\<not> reaches 0 (maxTurns (new_session testPlatform (testOptions (Some NaN))))"
    by (simp add: m reaches_NaN)
  have t: "turnEnds (replicate 25 TurnEnd) = 25"
    by (rule turnEnds_replicate)
  note R = run_events[OF z, of testPlatform "replicate 25 TurnEnd" testTask, unfolded a0 m t]
  have g: "\<not> js_ge (maxTurns (new_session testPlatform (testOptions (Some NaN)))) (Finite 1)"
    by (simp add: m)
  from m g R(1) R(2) R(3) show ?thesis by (simp add: reaches_NaN)
qed

subsection \<open>The source table\<close>

lemma sources_addSource:
  assumes "currentRun s = Some a"
  shows "sources (runStates (addSource P src s) a) =
     (sources (runStates s a))(in_url src \<mapsto>
        (case sources (runStates s a) (in_url src) of
           None \<Rightarrow> \<lparr> url = in_url src, title = in_title src, source = in_source src,
                      snippet = in_snippet src, addedAt = now P (clockReads s) \<rparr>
         | Some e \<Rightarrow> mergeSource e src))"
  using assms by (simp add: addSource_def Let_def)

lemma mergeSource_twice: "mergeSource (mergeSource e src) src = mergeSource e src"
  by (simp add: mergeSource_def js_or_def)

lemma mergeSource_fresh:
  "mergeSource \<lparr> url = in_url src, title = in_title src, source = in_source src,
                  snippet = in_snippet src, addedAt = t \<rparr> src
   = \<lparr> url = in_url src, title = in_title src, source = in_source src,
       snippet = in_snippet src, addedAt = t \<rparr>"
  by (simp add: mergeSource_def js_or_def)

lemma addSource_twice:
  assumes "currentRun s = Some a"
  shows "sources (runStates (addSource P src (addSource P src s)) a)
       = sources (runStates (addSource P src s) a)"
proof -
  have c: "currentRun (addSource P src s) = Some a"
    using assms by (simp add: addSource_frame)
  show ?thesis
    unfolding sources_addSource[OF c] unfolding sources_addSource[OF assms]
    by (auto simp: mergeSource_twice mergeSource_fresh split: option.splits)
qed

text \<open>
  Claim C2. During a run, adding an observation twice leaves the source table as adding it
  once does. Adding an observation touches the entry of its URL only, and the table gains at
  most that one key. A URL seen for the first time gets the observation with the time of the
  clock; a URL already in the table keeps its \<open>url\<close> and its \<open>addedAt\<close>, keeps each of
  title, snippet and provenance tag that is populated (truthy), and takes the observation's
  value for each that is empty. Every entry stays filed under its own URL.
\<close>

theorem source_merge_idempotent_no_overwrite:
  assumes "currentRun s = Some a"
  shows "sources (runStates (addSource P src (addSource P src s)) a)
           = sources (runStates (addSource P src s) a)
     \<and> dom (sources (runStates (addSource P src s) a))
           = insert (in_url src) (dom (sources (runStates s a)))
     \<and> (\<forall>u. u \<noteq> in_url src \<longrightarrow>
            sources (runStates (addSource P src s) a) u = sources (runStates s a) u)
     \<and> (sources (runStates s a) (in_url src) = None \<longrightarrow>
          sources (runStates (addSource P src s) a) (in_url src)
            = Some \<lparr> url = in_url src, title = in_title src, source = in_source src,
                     snippet = in_snippet src, addedAt = now P (clockReads s) \<rparr>)
     \<and> (\<forall>e. sources (runStates s a) (in_url src) = Some e \<longrightarrow>
          (\<exists>e'. sources (runStates (addSource P src s) a) (in_url src) = Some e'
             \<and> url e' = url e \<and> addedAt e' = addedAt e
             \<and> title e' = (if truthy (title e) then title e else in_title src)
             \<and> snippet e' = (if truthy (snippet e) then snippet e else in_snippet src)
             \<and> source e' = (if truthy (source e) then source e else in_source src)))
     \<and> ((\<forall>u e. sources (runStates s a) u = Some e \<longrightarrow> url e = u) \<longrightarrow>
          (\<forall>u e. sources (runStates (addSource P src s) a) u = Some e \<longrightarrow> url e = u))"
proof -
  note t = sources_addSource[OF assms, of P src]
  have 1: "sources (runStates (addSource P src (addSource P src s)) a)
           = sources (runStates (addSource P src s) a)"
    by (rule addSource_twice[OF assms])
  have 2: "dom (sources (runStates (addSource P src s) a))
           = insert (in_url src) (dom (sources (runStates s a)))"
    unfolding t by simp
  have 3: "\<forall>u. u \<noteq> in_url src \<longrightarrow>
            sources (runStates (addSource P src s) a) u = sources (runStates s a) u"
    unfolding t by simp
  have 4: "sources (runStates s a) (in_url src) = None \<longrightarrow>
          sources (runStates (addSource P src s) a) (in_url src)
            = Some \<lparr> url = in_url src, title = in_title src, source = in_source src,
                     snippet = in_snippet src, addedAt = now P (clockReads s) \<rparr>"
    unfolding t by simp
  have 5: "\<forall>e. sources (runStates s a) (in_url src) = Some e \<longrightarrow>
          (\<exists>e'. sources (runStates (addSource P src s) a) (in_url src) = Some e'
             \<and> url e' = url e \<and> addedAt e' = addedAt e
             \<and> title e' = (if truthy (title e) then title e else in_title src)
             \<and> snippet e' = (if truthy (snippet e) then snippet e else in_snippet src)
             \<and> source e' = (if truthy (source e) then source e else in_source src))"
    unfolding t by (simp add: mergeSource_def js_or_def)
  have 6: "(\<forall>u e. sources (runStates s a) u = Some e \<longrightarrow> url e = u) \<longrightarrow>
          (\<forall>u e. sources (runStates (addSource P src s) a) u = Some e \<longrightarrow> url e = u)"
    unfolding t by (auto simp: mergeSource_def split: option.splits if_splits)
  from 1 2 3 4 5 6 show ?thesis by blast
qed

lemma testSession_sources:
  "sources (runStates (testSession m) 0) ''https://arxiv.org/abs/1706.03762'' = 
   Some \<lparr> url = ''https://arxiv.org/abs/1706.03762'', title = JStr ''Seed Paper'',
               source = JStr ''seed'', snippet = JUndefined,
               addedAt = ''2026-01-01T00:00:00.000Z'' \<rparr>"
  by (simp add: testSession_def startedRun_def run_after_mkdir_def new_session_def testOptions_def
        testPlatform_def testTask_def addSource_def agent_call_def emptyRunState_def Let_def)

text \<open>
  The seed entry of a run, met again in a search result: title and tag stay, the missing
  snippet is filled, the time of the first sighting stays.
\<close>

theorem source_merge_idempotent_no_overwrite_witness:
  "currentRun (testSession None) = Some 0
   \<and> sources (runStates (testSession None) 0) (in_url testObservation)
       = Some \<lparr> url = ''https://arxiv.org/abs/1706.03762'', title = JStr ''Seed Paper'',
               source = JStr ''seed'', snippet = JUndefined,
               addedAt = ''2026-01-01T00:00:00.000Z'' \<rparr>
   \<and> (\<exists>e'. sources (runStates (addSource testPlatform testObservation (testSession None)) 0)
         (in_url testObservation) = Some e'
        \<and> url e' = ''https://arxiv.org/abs/1706.03762''
        \<and> addedAt e' = ''2026-01-01T00:00:00.000Z''
        \<and> title e' = JStr ''Seed Paper''
        \<and> snippet e' = JStr ''The dominant sequence transduction models''
        \<and> source e' = JStr ''seed'')
   \<and> sources (runStates (addSource testPlatform testObservation
                  (addSource testPlatform testObservation (testSession None))) 0)
       = sources (runStates (addSource testPlatform testObservation (testSession None)) 0)"
proof -
  have c: "currentRun (testSession None) = Some 0"
    by (simp add: testSession_def startedRun_props new_session_def)
  have u: "in_url testObservation = ''https://arxiv.org/abs/1706.03762''"
    by (simp add: testObservation_def)
  have e: "sources (runStates (testSession None) 0) (in_url testObservation)
       = Some \<lparr> url = ''https://arxiv.org/abs/1706.03762'', title = JStr ''Seed Paper'',
               source = JStr ''seed'', snippet = JUndefined,
               addedAt = ''2026-01-01T00:00:00.000Z'' \<rparr>"
    unfolding u by (rule testSession_sources)
  note T = source_merge_idempotent_no_overwrite[OF c, of testPlatform testObservation]
  have idem: "sources (runStates (addSource testPlatform testObservation
                  (addSource testPlatform testObservation (testSession None))) 0)
       = sources (runStates (addSource testPlatform testObservation (testSession None)) 0)"
    using T by (rule conjunct1)
  have five: "\<exists>e'. sources (runStates (addSource testPlatform testObservation (testSession None)) 0)
         (in_url testObservation) = Some e'
        \<and> url e' = ''https://arxiv.org/abs/1706.03762''
        \<and> addedAt e' = ''2026-01-01T00:00:00.000Z''
        \<and> title e' = JStr ''Seed Paper''
        \<and> snippet e' = JStr ''The dominant sequence transduction models''
        \<and> source e' = JStr ''seed''"
    using T[THEN conjunct2, THEN conjunct2, THEN conjunct2, THEN conjunct2, THEN conjunct1,
            rule_format, OF e]
    by (simp add: testObservation_def)
  from c e five idem show ?thesis by blast
qed

subsection \<open>One run at a time\<close>

text \<open>
  A call of \<^verbatim>\<open>run\<close> made while \<open>currentRun\<close> is set is rejected and writes nothing; the
  \<^verbatim>\<open>finally\<close> block clears \<open>currentRun\<close> whatever the outcome of the prompt, and the rest
  of \<^verbatim>\<open>run\<close> leaves it alone.
\<close>

lemma run_enter_rejects_active:
  "currentRun s \<noteq> None \<Longrightarrow> run_enter P seedPaperUrl s = Inl AlreadyInProgress"
  by (simp add: run_enter_def)

lemma run_enter_accepts_only_idle:
  "run_enter P seedPaperUrl s = Inr t \<Longrightarrow> currentRun s = None"
  by (simp add: run_enter_def split: if_splits)

lemma run_after_prompt_clears:
  "currentRun (snd (run_after_prompt t promptOk s)) = None"
  by (simp add: run_after_prompt_def Let_def split: option.splits)

lemma run_finish_currentRun:
  "currentRun (snd (run_finish P t readResult w1 w2 s)) = currentRun s"
  by (simp add: run_finish_def Let_def agent_call_def emit_def split: option.splits)

text \<open>
  Claim C4. \<open>currentRun\<close> is set only after \<^verbatim>\<open>await mkdir(...)\<close>. So a second call of
  \<^verbatim>\<open>run\<close>, made while the first waits for \<^verbatim>\<open>mkdir\<close>, is not rejected: both calls wait for
  \<^verbatim>\<open>mkdir\<close>, both go on to prompt the agent, each with a run state of its own, and when the
  prompt of the second fails \<open>currentRun\<close> is cleared although the first call still waits
  for the agent. Made after the first \<^verbatim>\<open>mkdir\<close> has ended, the second call is rejected with
  the concurrent-run error.
\<close>

theorem second_run_call_during_mkdir_is_accepted:
  "runCalls (happenings testPlatform (startController testPlatform (testOptions None))
      [CallRun ''https://arxiv.org/abs/1706.03762'', CallRun ''https://arxiv.org/abs/1706.03762''])
     = [AwaitingMkdir testTask, AwaitingMkdir testTask]
   \<and> runCalls (happenings testPlatform (startController testPlatform (testOptions None))
      [CallRun ''https://arxiv.org/abs/1706.03762'', CallRun ''https://arxiv.org/abs/1706.03762'',
       MkdirDone 0 True, MkdirDone 1 True])
     = [AwaitingPrompt (testTask\<lparr> t_runState := Some 0 \<rparr>),
        AwaitingPrompt (testTask\<lparr> t_runState := Some 1 \<rparr>)]
   \<and> currentRun (session (happenings testPlatform (startController testPlatform (testOptions None))
      [CallRun ''https://arxiv.org/abs/1706.03762'', CallRun ''https://arxiv.org/abs/1706.03762'',
       MkdirDone 0 True, MkdirDone 1 True])) = Some 1
   \<and> runCalls (happenings testPlatform (startController testPlatform (testOptions None))
      [CallRun ''https://arxiv.org/abs/1706.03762'', CallRun ''https://arxiv.org/abs/1706.03762'',
       MkdirDone 0 True, MkdirDone 1 True, PromptDone 1 False])
     = [AwaitingPrompt (testTask\<lparr> t_runState := Some 0 \<rparr>), Settled (Inl AgentFailure)]
   \<and> currentRun (session (happenings testPlatform (startController testPlatform (testOptions None))
      [CallRun ''https://arxiv.org/abs/1706.03762'', CallRun ''https://arxiv.org/abs/1706.03762'',
       MkdirDone 0 True, MkdirDone 1 True, PromptDone 1 False])) = None
   \<and> runCalls (happenings testPlatform (startController testPlatform (testOptions None))
      [CallRun ''https://arxiv.org/abs/1706.03762'', MkdirDone 0 True,
       CallRun ''https://arxiv.org/abs/1706.03762''])
     = [AwaitingPrompt (testTask\<lparr> t_runState := Some 0 \<rparr>), Settled (Inl AlreadyInProgress)]"
  by code_simp

section \<open>Properties of slug derivation\<close>

subsection \<open>The sanitized text is the slug of the specification\<close>

lemma hyphen_not_alnum: "\<not> is_lower_alnum (CHR ''-'')"
  by (simp add: is_lower_alnum_def)

lemma alnumWords_dropWhile_sep: "alnumWords (dropWhile is_sep cs) = alnumWords cs"
  by (induction cs) auto

lemma list_all_takeWhile: "list_all P (takeWhile P xs)"
  by (induction xs) auto

lemma alnumWords_words:
  "\<forall>w \<in> set (alnumWords s). w \<noteq> [] \<and> list_all is_lower_alnum w"
proof (induction s rule: alnumWords.induct)
  case 1
  show ?case by simp
next
  case (2 c cs)
  show ?case
  proof (cases "is_lower_alnum c")
    case True
    have w: "alnumWords (c # cs)
               = (c # takeWhile is_lower_alnum cs) # alnumWords (dropWhile is_lower_alnum cs)"
      using True by simp
    have "list_all is_lower_alnum (c # takeWhile is_lower_alnum cs)"
      using True by (simp add: list_all_takeWhile)
    then show ?thesis
      unfolding w using 2(1)[OF True] by simp
  next
    case False
    then show ?thesis using 2(2) by simp
  qed
qed

lemma alnumWords_empty_iff: "alnumWords s = [] \<longleftrightarrow> list_all is_sep s"
  by (induction s rule: alnumWords.induct) auto

lemma replace_runs_prefix:
  "list_all (\<lambda>c. \<not> Q c) w \<Longrightarrow> replace_runs Q rep (w @ t) = w @ replace_runs Q rep t"
  by (induction w) auto


lemma dropWhile_sep_shape:
  "dropWhile is_sep cs = [] \<or> (\<exists>d ds. dropWhile is_sep cs = d # ds \<and> is_lower_alnum d)"
  by (induction cs) auto

lemma last_dropWhile: "dropWhile Q cs \<noteq> [] \<Longrightarrow> last (dropWhile Q cs) = last cs"
  by (induction cs) auto

lemma slugPre_Cons: "slugPre (c # cs) = (if is_lower_alnum c then [] else ''-'')"
  by (simp add: slugPre_def)

lemma replace_sep_shape:
  "replace_runs is_sep ''-'' s = slugPre s @ join ''-'' (alnumWords s) @ slugPost s"
proof (induction "is_sep" "''-''" s rule: replace_runs.induct)
  case 1
  show ?case by (simp add: slugPre_def slugPost_def)
next
  case (2 c cs)
  show ?case
  proof (cases "is_lower_alnum c")
    case False
    let ?r = "dropWhile is_sep cs"
    have ih: "replace_runs is_sep ''-'' ?r = slugPre ?r @ join ''-'' (alnumWords ?r) @ slugPost ?r"
      using 2(1) False by simp
    have pre: "slugPre ?r = []"
    proof -
      from dropWhile_sep_shape[of cs] show ?thesis
      proof
        assume "?r = []"
        then show ?thesis by (simp add: slugPre_def del: dropWhile_eq_Nil_conv)
      next
        assume "\<exists>d ds. ?r = d # ds \<and> is_lower_alnum d"
        then obtain d ds where "?r = d # ds" "is_lower_alnum d" by blast
        then show ?thesis by (simp add: slugPre_def)
      qed
    qed
    have w: "alnumWords (c # cs) = alnumWords ?r"
      using False by (simp add: alnumWords_dropWhile_sep)
    have post: "slugPost (c # cs) = slugPost ?r"
    proof (cases "?r = []")
      case True
      show ?thesis unfolding slugPost_def w True by simp
    next
      case r: False
      then have "cs \<noteq> []" by auto
      then show ?thesis
        unfolding slugPost_def w using last_dropWhile[OF r] by simp
    qed
    have pc: "slugPre (c # cs) = ''-''"
      using False by (simp add: slugPre_Cons)
    have "replace_runs is_sep ''-'' (c # cs) = ''-'' @ replace_runs is_sep ''-'' ?r"
      using False by simp
    also have "\<dots> = ''-'' @ join ''-'' (alnumWords ?r) @ slugPost ?r"
      unfolding ih pre by simp
    finally show ?thesis
      unfolding pc w post .
  next
    case True
    have ih: "replace_runs is_sep ''-'' cs = slugPre cs @ join ''-'' (alnumWords cs) @ slugPost cs"
      using 2(2) True by simp
    have pc: "slugPre (c # cs) = []"
      using True by (simp add: slugPre_Cons)
    have step: "replace_runs is_sep ''-'' (c # cs) = c # replace_runs is_sep ''-'' cs"
      using True by simp
    show ?thesis
    proof (cases cs)
      case Nil
      then show ?thesis using True by (simp add: slugPre_def slugPost_def)
    next
      case (Cons d ds)
      have lastc: "last (c # cs) = last cs" using Cons by simp
      show ?thesis
      proof (cases "is_lower_alnum d")
        case d: True
        have a: "alnumWords (c # cs) = (c # takeWhile is_lower_alnum cs) # alnumWords (dropWhile is_lower_alnum cs)"
          using True by simp
        have b: "alnumWords cs = takeWhile is_lower_alnum cs # alnumWords (dropWhile is_lower_alnum cs)"
          using d Cons by simp
        have j: "join ''-'' (alnumWords (c # cs)) = c # join ''-'' (alnumWords cs)"
          unfolding a b by (cases "alnumWords (dropWhile is_lower_alnum cs)") simp_all
        have post: "slugPost (c # cs) = slugPost cs"
          unfolding slugPost_def lastc a b by simp
        have pre: "slugPre cs = []" using d Cons by (simp add: slugPre_Cons)
        show ?thesis
          unfolding step ih pc pre j post by simp
      next
        case d: False
        have wc: "alnumWords (c # cs) = [c] # alnumWords cs"
          using True d Cons by simp
        have pre: "slugPre cs = ''-''" using d Cons by (simp add: slugPre_Cons)
        show ?thesis
        proof (cases "alnumWords cs = []")
          case e: True
          then have "list_all is_sep cs" by (simp add: alnumWords_empty_iff)
          then have "\<not> is_lower_alnum (last cs)"
            using Cons by (metis last_in_set list.distinct(1) list_all_iff)
          then have post: "slugPost (c # cs) = ''-''"
            unfolding slugPost_def lastc wc by simp
          have post': "slugPost cs = []"
            unfolding slugPost_def e by simp
          show ?thesis
            unfolding step ih pc pre post post' wc e by simp
        next
          case e: False
          then obtain w ws where ws: "alnumWords cs = w # ws" by (cases "alnumWords cs") auto
          have post: "slugPost (c # cs) = slugPost cs"
            unfolding slugPost_def lastc wc ws by simp
          show ?thesis
            unfolding step ih pc pre post wc ws by simp
        qed
      qed
    qed
  qed
qed


lemma alnum_not_hyphen: "is_lower_alnum c \<Longrightarrow> \<not> is_hyphen c"
  using hyphen_not_alnum by (auto simp: is_hyphen_def)

lemma join_Cons_Cons: "join g (w # w' # ws) = w @ g @ join g (w' # ws)"
  by simp

lemma list_all_hd_last: "x \<noteq> [] \<Longrightarrow> list_all P x \<Longrightarrow> P (hd x) \<and> P (last x)"
  by (simp add: list_all_iff)

lemma join_words_ends:
  assumes "ws \<noteq> []" and "\<forall>w \<in> set ws. w \<noteq> [] \<and> list_all is_lower_alnum w"
  shows "join ''-'' ws \<noteq> [] \<and> is_lower_alnum (hd (join ''-'' ws))
         \<and> is_lower_alnum (last (join ''-'' ws))"
  using assms
proof (induction ws rule: induct_list012)
  case 1
  then show ?case by simp
next
  case (2 x)
  then show ?case using list_all_hd_last[of x is_lower_alnum] by simp
next
  case (3 x y ys)
  have x: "x \<noteq> []" "list_all is_lower_alnum x" using 3(4) by auto
  have ih: "join ''-'' (y # ys) \<noteq> [] \<and> is_lower_alnum (last (join ''-'' (y # ys)))"
    using 3(2) 3(4) by auto
  have "hd (x @ ''-'' @ join ''-'' (y # ys)) = hd x" using x by simp
  moreover have "is_lower_alnum (hd x)" using x by (cases x) auto
  moreover have "last (x @ ''-'' @ join ''-'' (y # ys)) = last (join ''-'' (y # ys))"
    using ih by simp
  ultimately show ?case using ih unfolding join_Cons_Cons by simp
qed

lemma collapse_hyphens_join:
  assumes "\<forall>w \<in> set ws. w \<noteq> [] \<and> list_all is_lower_alnum w"
  shows "replace_runs is_hyphen ''-'' (join ''-'' ws) = join ''-'' ws"
  using assms
proof (induction ws rule: induct_list012)
  case 1
  then show ?case by simp
next
  case (2 x)
  have "list_all (\<lambda>c. \<not> is_hyphen c) x"
    using 2 by (auto simp: list_all_iff alnum_not_hyphen)
  from replace_runs_prefix[OF this, of "''-''" "[]"] show ?case by simp
next
  case (3 x y ys)
  have nx: "list_all (\<lambda>c. \<not> is_hyphen c) x"
    using 3(3) by (auto simp: list_all_iff alnum_not_hyphen)
  have ih: "replace_runs is_hyphen ''-'' (join ''-'' (y # ys)) = join ''-'' (y # ys)"
    using 3(2) 3(3) by auto
  have e: "join ''-'' (y # ys) \<noteq> [] \<and> is_lower_alnum (hd (join ''-'' (y # ys)))"
    using join_words_ends[of "y # ys"] 3(3) by auto
  then obtain d ds where d: "join ''-'' (y # ys) = d # ds" "\<not> is_hyphen d"
    by (cases "join ''-'' (y # ys)") (auto simp: alnum_not_hyphen)
  have "dropWhile is_hyphen (join ''-'' (y # ys)) = join ''-'' (y # ys)"
    unfolding d(1) using d(2) by simp
  moreover have "replace_runs is_hyphen ''-'' (''-'' @ join ''-'' (y # ys))
      = ''-'' @ replace_runs is_hyphen ''-'' (dropWhile is_hyphen (join ''-'' (y # ys)))"
    by (simp add: is_hyphen_def del: join.simps)
  ultimately have "replace_runs is_hyphen ''-'' (''-'' @ join ''-'' (y # ys)) = ''-'' @ join ''-'' (y # ys)"
    using ih by simp
  then show ?case
    unfolding join_Cons_Cons using replace_runs_prefix[OF nx, of "''-''"] by simp
qed

lemma strip_hyphens_shape:
  assumes "a = [] \<or> a = ''-''" and "b = [] \<or> b = ''-''"
    and "J \<noteq> []" and "\<not> is_hyphen (hd J)" and "\<not> is_hyphen (last J)"
  shows "strip_hyphens (a @ J @ b) = J"
proof -
  obtain d ds where d: "J = d # ds" using assms(3) by (cases J) auto
  have 1: "dropWhile is_hyphen (a @ J @ b) = J @ b"
    using assms(1,4) d by (auto simp: is_hyphen_def)
  obtain es e where e: "J = es @ [e]" using assms(3) by (cases J rule: rev_cases) auto
  have ne: "\<not> is_hyphen e" using assms(5) e by simp
  have 2: "dropWhile is_hyphen (rev b @ rev J) = rev J"
    unfolding e using assms(2) ne by (auto simp: is_hyphen_def)
  show ?thesis
    unfolding strip_hyphens_def 1 by (simp add: 2)
qed

lemma strip_hyphens_only: "a = [] \<or> a = ''-'' \<Longrightarrow> strip_hyphens a = []"
  by (auto simp: strip_hyphens_def is_hyphen_def)

lemma sanitizeSlug_slugOf: "sanitizeSlug v = slugOf v"
proof -
  let ?s = "toLowerCase v"
  let ?J = "join ''-'' (alnumWords ?s)"
  have pre: "slugPre ?s = [] \<or> slugPre ?s = ''-''"
    by (simp add: slugPre_def split: list.splits)
  have post: "slugPost ?s = [] \<or> slugPost ?s = ''-''"
    by (simp add: slugPost_def)
  have words: "\<forall>w \<in> set (alnumWords ?s). w \<noteq> [] \<and> list_all is_lower_alnum w"
    by (rule alnumWords_words)
  have strip: "strip_hyphens (replace_runs is_sep ''-'' ?s) = ?J"
  proof (cases "alnumWords ?s = []")
    case True
    then have "slugPost ?s = []" by (simp add: slugPost_def)
    then show ?thesis
      unfolding replace_sep_shape using True pre by (simp add: strip_hyphens_only)
  next
    case False
    from join_words_ends[OF False words]
    have "?J \<noteq> []" "\<not> is_hyphen (hd ?J)" "\<not> is_hyphen (last ?J)"
      by (auto simp: alnum_not_hyphen)
    from strip_hyphens_shape[OF pre post this] show ?thesis
      unfolding replace_sep_shape .
  qed
  show ?thesis
    unfolding sanitizeSlug_def strip slugOf_def by (rule collapse_hyphens_join[OF words])
qed


lemma toLowerCase_append: "toLowerCase (a @ b) = toLowerCase a @ toLowerCase b"
  by (simp add: toLowerCase_def)

lemma slugOf_arxiv_nonempty: "slugOf (''arxiv-'' @ i) \<noteq> []"
proof -
  have l: "toLowerCase ''arxiv-'' = ''arxiv-''"
    by (simp add: toLowerCase_def lower_char_def)
  have "alnumWords (''arxiv-'' @ w) = ''arxiv'' # alnumWords w" for w
    by (simp add: is_lower_alnum_def)
  then have "slugOf (''arxiv-'' @ i) = join ''-'' (''arxiv'' # alnumWords (toLowerCase i))"
    by (simp only: slugOf_def toLowerCase_append l)
  then show ?thesis by (cases "alnumWords (toLowerCase i)") simp_all
qed

lemma parseArxivId_nonempty: "parseArxivId u = Some i \<Longrightarrow> i \<noteq> []"
  by (auto simp: parseArxivId_def absMatch_def pdfMatch_def Let_def
           split: if_splits option.splits)

lemma createPaperSlug_arxiv:
  "parseArxivId u = Some i \<Longrightarrow> createPaperSlug u = slugOf (''arxiv-'' @ i)"
  using slugOf_arxiv_nonempty[of i] parseArxivId_nonempty[of u i]
  by (simp add: createPaperSlug_def sanitizeSlug_slugOf Let_def)

lemma absMatch_id:
  assumes "i \<noteq> []" "list_all is_id_char i" "rest = [] \<or> \<not> is_id_char (hd rest)"
  shows "absMatch (''/abs/'' @ i @ rest) = Some i"
proof -
  have "takeWhile is_id_char rest = []" using assms(3) by (cases rest) auto
  then have "takeWhile is_id_char (i @ rest) = i"
    using assms(2) by (simp add: takeWhile_append2 list_all_iff)
  then show ?thesis using assms(1) by (simp add: absMatch_def startsWith_def)
qed

lemma endsWith_append: "endsWith (a @ p) p"
  by (simp add: endsWith_def)

lemma pdfMatch_id_ext:
  assumes "i \<noteq> []" "list_all is_id_char i"
  shows "pdfMatch (''/pdf/'' @ i @ ''.pdf'') = Some i"
proof -
  have "list_all is_id_char (i @ ''.pdf'')" using assms(2) by (simp add: is_id_char_def)
  moreover have "4 < length (i @ ''.pdf'')" using assms(1) by (cases i) auto
  moreover have "take (length (i @ ''.pdf'') - 4) (i @ ''.pdf'') = i" by simp
  ultimately show ?thesis
    using endsWith_append[of i "''.pdf''"]
    by (simp add: pdfMatch_def startsWith_def Let_def del: list_all_append)
qed

lemma pdfMatch_id_plain:
  assumes "i \<noteq> []" "list_all is_id_char i" "\<not> endsWith i ''.pdf''"
  shows "pdfMatch (''/pdf/'' @ i) = Some i"
  using assms by (simp add: pdfMatch_def startsWith_def Let_def)

lemma absMatch_pdf_path: "absMatch (''/pdf/'' @ r) = None"
  by (simp add: absMatch_def startsWith_def)

subsection \<open>Slugs of arXiv seeds\<close>

text \<open>
  Claim C5, as amended. For a seed URL that \<^verbatim>\<open>parseArxivId\<close> gives the identifier \<open>i\<close>, the
  slug is the slug of \<^verbatim>\<open>arxiv-\<close> followed by \<open>i\<close>: lower-cased, the runs of \<^verbatim>\<open>a-z0-9\<close> joined
  by single hyphens, no hyphen at either end. On a host ending in \<^verbatim>\<open>arxiv.org\<close>, with \<open>i\<close> a
  non-empty text without \<^verbatim>\<open>/\<close>, \<^verbatim>\<open>?\<close> and \<^verbatim>\<open>#\<close>, the paths \<^verbatim>\<open>/abs/i\<close> (followed by nothing, or
  by one of those three characters), \<^verbatim>\<open>/pdf/i.pdf\<close>, and \<^verbatim>\<open>/pdf/i\<close> when \<open>i\<close> does not end in
  \<^verbatim>\<open>.pdf\<close>, all give the identifier \<open>i\<close>.
\<close>

theorem arxiv_seed_slug:
  "(parseArxivId u = Some i \<longrightarrow> createPaperSlug u = slugOf (''arxiv-'' @ i))
   \<and> (endsWith (hostname u) ''arxiv.org'' \<and> i \<noteq> [] \<and> list_all is_id_char i \<longrightarrow>
        (pathname u = ''/abs/'' @ i @ rest \<and> (rest = [] \<or> \<not> is_id_char (hd rest))
           \<longrightarrow> parseArxivId u = Some i)
      \<and> (pathname u = ''/pdf/'' @ i @ ''.pdf'' \<longrightarrow> parseArxivId u = Some i)
      \<and> (pathname u = ''/pdf/'' @ i \<and> \<not> endsWith i ''.pdf'' \<longrightarrow> parseArxivId u = Some i))
   \<and> sanitizeSlug v = slugOf v"
proof -
  have 1: "parseArxivId u = Some i \<longrightarrow> createPaperSlug u = slugOf (''arxiv-'' @ i)"
    using createPaperSlug_arxiv by blast
  have 2: "pathname u = ''/abs/'' @ i @ rest \<and> (rest = [] \<or> \<not> is_id_char (hd rest))
           \<longrightarrow> parseArxivId u = Some i"
    if "endsWith (hostname u) ''arxiv.org''" "i \<noteq> []" "list_all is_id_char i"
    using that absMatch_id[of i rest] by (auto simp: parseArxivId_def)
  have 3: "pathname u = ''/pdf/'' @ i @ ''.pdf'' \<longrightarrow> parseArxivId u = Some i"
    if "endsWith (hostname u) ''arxiv.org''" "i \<noteq> []" "list_all is_id_char i"
    using that pdfMatch_id_ext[of i] absMatch_pdf_path[of "i @ ''.pdf''"]
    by (auto simp: parseArxivId_def)
  have 4: "pathname u = ''/pdf/'' @ i \<and> \<not> endsWith i ''.pdf'' \<longrightarrow> parseArxivId u = Some i"
    if "endsWith (hostname u) ''arxiv.org''" "i \<noteq> []" "list_all is_id_char i"
    using that pdfMatch_id_plain[of i] absMatch_pdf_path[of i]
    by (auto simp: parseArxivId_def)
  from 1 2 3 4 sanitizeSlug_slugOf[of v] show ?thesis by blast
qed

text \<open>The seed \<^verbatim>\<open>https://arxiv.org/abs/1706.03762\<close> has the slug \<^verbatim>\<open>arxiv-1706-03762\<close>.\<close>

theorem arxiv_seed_slug_witness:
  "parseArxivId attentionUrl = Some ''1706.03762''
   \<and> createPaperSlug attentionUrl = slugOf ''arxiv-1706.03762''
   \<and> slugOf ''arxiv-1706.03762'' = ''arxiv-1706-03762''
   \<and> sanitizeSlug ''arxiv-1706.03762'' = ''arxiv-1706-03762''"
proof -
  have p: "parseArxivId attentionUrl = Some ''1706.03762''"
    by (simp add: attentionUrl_def parseArxivId_def endsWith_def absMatch_def startsWith_def
          is_id_char_def)
  have s: "slugOf ''arxiv-1706.03762'' = ''arxiv-1706-03762''"
    by (simp add: slugOf_def toLowerCase_def lower_char_def is_lower_alnum_def)
  note T = arxiv_seed_slug[of attentionUrl "''1706.03762''" "[]" "''arxiv-1706.03762''"]
  have c: "createPaperSlug attentionUrl = slugOf ''arxiv-1706.03762''"
    using T p by simp
  have d: "sanitizeSlug ''arxiv-1706.03762'' = ''arxiv-1706-03762''"
    using T s by simp
  from p c s d show ?thesis by blast
qed

text \<open>
  The claim as it was stated gives \<^verbatim>\<open>arxiv-1706.03762\<close> for that seed, and keeps the case of
  letters; the code gives neither.
\<close>

theorem arxiv_slug_example_differs:
  "createPaperSlug attentionUrl = ''arxiv-1706-03762''
   \<and> createPaperSlug attentionUrl \<noteq> ''arxiv-1706.03762''
   \<and> createPaperSlug oldStyleUrl = ''arxiv-math-gt''
   \<and> createPaperSlug oldStyleUrl \<noteq> ''arxiv-math-GT''"
  by code_simp

section \<open>Properties of the report validator\<close>

subsection \<open>The tests of the code find what the specification describes\<close>

lemma exists_at_iff: "exists_at P s \<longleftrightarrow> (\<exists>a b. s = a @ b \<and> P b)"
proof (induction s)
  case Nil
  then show ?case by simp
next
  case (Cons c cs)
  show ?case
  proof
    assume "exists_at P (c # cs)"
    then consider "P (c # cs)" | "exists_at P cs" by auto
    then show "\<exists>a b. c # cs = a @ b \<and> P b"
    proof cases
      case 1
      then have "c # cs = [] @ (c # cs) \<and> P (c # cs)" by simp
      then show ?thesis by blast
    next
      case 2
      then obtain a b where "cs = a @ b" "P b" using Cons.IH by blast
      then have "c # cs = (c # a) @ b \<and> P b" by simp
      then show ?thesis by blast
    qed
  next
    assume "\<exists>a b. c # cs = a @ b \<and> P b"
    then obtain a b where ab: "c # cs = a @ b" "P b" by blast
    show "exists_at P (c # cs)"
    proof (cases a)
      case Nil
      then have "P (c # cs)" using ab by simp
      then show ?thesis by simp
    next
      case (Cons x xs)
      then have "cs = xs @ b" using ab by simp
      then show ?thesis using ab(2) Cons.IH by auto
    qed
  qed
qed

lemma startsWith_iff: "startsWith t p \<longleftrightarrow> (\<exists>b. t = p @ b)"
proof
  assume "startsWith t p"
  then have "t = p @ drop (length p) t"
    by (metis append_take_drop_id startsWith_def)
  then show "\<exists>b. t = p @ b" ..
next
  assume "\<exists>b. t = p @ b"
  then show "startsWith t p" by (auto simp: startsWith_def)
qed

lemma includesStr_iff: "includesStr s p \<longleftrightarrow> (\<exists>a b. s = a @ p @ b)"
  unfolding includesStr_def exists_at_iff startsWith_iff by blast

lemma urlAt_iff:
  "urlAt t \<longleftrightarrow> (\<exists>scheme c b. t = scheme @ c # b \<and>
        (scheme = ''http://'' \<or> scheme = ''https://'') \<and> \<not> is_space c)"
proof
  assume u: "urlAt t"
  show "\<exists>scheme c b. t = scheme @ c # b \<and>
        (scheme = ''http://'' \<or> scheme = ''https://'') \<and> \<not> is_space c"
  proof (cases "startsWith t ''http://'' \<and> (case drop 7 t of [] \<Rightarrow> False | c # _ \<Rightarrow> \<not> is_space c)")
    case True
    then obtain b where b: "t = ''http://'' @ b" by (auto simp: startsWith_iff)
    with True obtain c b' where "b = c # b'" "\<not> is_space c" by (cases b) auto
    with b show ?thesis by blast
  next
    case False
    with u have h: "startsWith t ''https://''" "(case drop 8 t of [] \<Rightarrow> False | c # _ \<Rightarrow> \<not> is_space c)"
      by (auto simp: urlAt_def)
    then obtain b where b: "t = ''https://'' @ b" by (auto simp: startsWith_iff)
    with h obtain c b' where "b = c # b'" "\<not> is_space c" by (cases b) auto
    with b show ?thesis by blast
  qed
next
  assume "\<exists>scheme c b. t = scheme @ c # b \<and>
        (scheme = ''http://'' \<or> scheme = ''https://'') \<and> \<not> is_space c"
  then show "urlAt t" by (auto simp: urlAt_def startsWith_def)
qed

lemma hasUrl_iff: "hasUrl text \<longleftrightarrow> containsUrl text"
  unfolding hasUrl_def containsUrl_def exists_at_iff urlAt_iff by blast


lemma is_space_code: "is_space c \<longleftrightarrow> (of_char c :: nat) \<in> {9, 10, 11, 12, 13, 32, 160}"
proof -
  have e: "c = d \<longleftrightarrow> (of_char c :: nat) = of_char d" for d
    by simp
  show ?thesis
    unfolding is_space_def by (simp add: e)
qed

lemma is_space_lower_char: "is_space (lower_char c) = is_space c"
proof -
  have b: "(of_char c :: nat) < 256" by simp
  have m: "(of_char (char_of (of_char c + 32 :: nat)) :: nat) = (of_char c + 32) mod 256"
    by simp
  show ?thesis
    unfolding is_space_code lower_char_def Let_def using b
    by (auto simp: m mod_if)
qed

lemma toLowerCase_eq_append:
  "toLowerCase t = a @ b \<longleftrightarrow> (\<exists>a' b'. t = a' @ b' \<and> toLowerCase a' = a \<and> toLowerCase b' = b)"
  unfolding toLowerCase_def by (auto simp: map_eq_append_conv)

lemma hasUrlIgnoreCase_iff: "hasUrlIgnoreCase text \<longleftrightarrow> containsUrlAnyCase text"
proof
  assume "hasUrlIgnoreCase text"
  then obtain a scheme c b where t: "toLowerCase text = a @ scheme @ c # b"
      and sc: "scheme = ''http://'' \<or> scheme = ''https://''" and c: "\<not> is_space c"
    unfolding hasUrlIgnoreCase_def exists_at_iff urlAt_iff by blast
  from t obtain a' r where 1: "text = a' @ r" "toLowerCase r = scheme @ c # b"
    unfolding toLowerCase_eq_append by blast
  from 1(2) obtain s' r' where 2: "r = s' @ r'" "toLowerCase s' = scheme" "toLowerCase r' = c # b"
    unfolding toLowerCase_eq_append by blast
  from 2(3) obtain c' b' where 3: "r' = c' # b'" "lower_char c' = c"
    unfolding toLowerCase_def by (auto simp: map_eq_Cons_conv)
  have "\<not> is_space c'" using c 3(2) is_space_lower_char[of c'] by simp
  then have "text = a' @ s' @ c' # b' \<and>
      (toLowerCase s' = ''http://'' \<or> toLowerCase s' = ''https://'') \<and> \<not> is_space c'"
    using 1(1) 2(1,2) 3(1) sc by simp
  then show "containsUrlAnyCase text"
    unfolding containsUrlAnyCase_def by blast
next
  assume "containsUrlAnyCase text"
  then obtain a scheme c b where t: "text = a @ scheme @ c # b"
      and sc: "toLowerCase scheme = ''http://'' \<or> toLowerCase scheme = ''https://''"
      and c: "\<not> is_space c"
    unfolding containsUrlAnyCase_def by blast
  have "toLowerCase text = toLowerCase a @ toLowerCase scheme @ lower_char c # toLowerCase b"
    unfolding t toLowerCase_def by simp
  moreover have "\<not> is_space (lower_char c)" using c by (simp add: is_space_lower_char)
  ultimately show "hasUrlIgnoreCase text"
    unfolding hasUrlIgnoreCase_def exists_at_iff urlAt_iff using sc by blast
qed

lemma bracket_not_digit: "\<not> is_digit (CHR '']'')"
  by (simp add: is_digit_def)

lemma bracketCitationAt_iff:
  "bracketCitationAt t \<longleftrightarrow>
     (\<exists>ds b. t = ''['' @ ds @ '']'' @ b \<and> ds \<noteq> [] \<and> list_all is_digit ds)"
proof
  assume a: "bracketCitationAt t"
  then obtain cs where t: "t = CHR ''['' # cs" and n: "takeWhile is_digit cs \<noteq> []"
      and d: "(case dropWhile is_digit cs of [] \<Rightarrow> False | d # _ \<Rightarrow> d = CHR '']'')"
    by (cases t) (auto simp: bracketCitationAt_def)
  from d obtain b where b: "dropWhile is_digit cs = CHR '']'' # b"
    by (cases "dropWhile is_digit cs") auto
  have "cs = takeWhile is_digit cs @ dropWhile is_digit cs" by simp
  then have "t = ''['' @ takeWhile is_digit cs @ '']'' @ b"
    using t b by simp
  then show "\<exists>ds b. t = ''['' @ ds @ '']'' @ b \<and> ds \<noteq> [] \<and> list_all is_digit ds"
    using n list_all_takeWhile[of is_digit cs] by blast
next
  assume "\<exists>ds b. t = ''['' @ ds @ '']'' @ b \<and> ds \<noteq> [] \<and> list_all is_digit ds"
  then obtain ds b where t: "t = ''['' @ ds @ '']'' @ b" and n: "ds \<noteq> []"
      and d: "list_all is_digit ds" by blast
  have 1: "takeWhile is_digit (ds @ CHR '']'' # b) = ds"
    using d bracket_not_digit by (simp add: takeWhile_append2 list_all_iff)
  have 2: "dropWhile is_digit (ds @ CHR '']'' # b) = CHR '']'' # b"
    using d bracket_not_digit by (simp add: dropWhile_append2 list_all_iff)
  show "bracketCitationAt t"
    unfolding t bracketCitationAt_def using n by (simp add: 1 2)
qed

lemma hasBracketCitation_iff: "hasBracketCitation text \<longleftrightarrow> containsBracketCitation text"
proof
  assume "hasBracketCitation text"
  then obtain a t where t: "text = a @ t" "bracketCitationAt t"
    unfolding hasBracketCitation_def exists_at_iff by blast
  from t(2) obtain ds b where "t = ''['' @ ds @ '']'' @ b" "ds \<noteq> []" "list_all is_digit ds"
    unfolding bracketCitationAt_iff by blast
  with t(1) have "text = a @ ''['' @ ds @ '']'' @ b \<and> ds \<noteq> [] \<and> list_all is_digit ds"
    by simp
  then show "containsBracketCitation text"
    unfolding containsBracketCitation_def by blast
next
  assume "containsBracketCitation text"
  then obtain a ds b where t: "text = a @ ''['' @ ds @ '']'' @ b" "ds \<noteq> []" "list_all is_digit ds"
    unfolding containsBracketCitation_def by blast
  have "bracketCitationAt (''['' @ ds @ '']'' @ b)"
    unfolding bracketCitationAt_iff using t(2,3) by blast
  then have "text = a @ (''['' @ ds @ '']'' @ b) \<and> bracketCitationAt (''['' @ ds @ '']'' @ b)"
    using t(1) by simp
  then show "hasBracketCitation text"
    unfolding hasBracketCitation_def exists_at_iff by blast
qed

lemma hasComparisonKeyword_iff: "hasComparisonKeyword text \<longleftrightarrow> containsComparisonWord text"
  unfolding hasComparisonKeyword_def containsComparisonWord_def list_ex_iff includesStr_iff
  by blast

lemma hasHeading_from_iff:
  "hasHeading_from b s h \<longleftrightarrow>
     (b \<and> (\<exists>post. s = h @ post \<and> line_end post)) \<or>
     (\<exists>pre post. pre \<noteq> [] \<and> s = pre @ h @ post \<and> is_line_terminator (last pre) \<and> line_end post)"
proof (induction s arbitrary: b)
  case Nil
  then show ?case by auto
next
  case (Cons c cs)
  have first: "(startsWith (c # cs) h \<and> line_end (drop (length h) (c # cs)))
                 \<longleftrightarrow> (\<exists>post. c # cs = h @ post \<and> line_end post)"
  proof
    assume a: "startsWith (c # cs) h \<and> line_end (drop (length h) (c # cs))"
    then have "c # cs = h @ drop (length h) (c # cs)"
      by (metis append_take_drop_id startsWith_def)
    with a show "\<exists>post. c # cs = h @ post \<and> line_end post" by blast
  next
    assume "\<exists>post. c # cs = h @ post \<and> line_end post"
    then obtain post where p: "c # cs = h @ post" "line_end post" by blast
    then have "startsWith (c # cs) h" "drop (length h) (c # cs) = post"
      by (simp_all add: startsWith_def)
    with p show "startsWith (c # cs) h \<and> line_end (drop (length h) (c # cs))" by simp
  qed
  have rest: "hasHeading_from (is_line_terminator c) cs h \<longleftrightarrow>
     (\<exists>pre post. pre \<noteq> [] \<and> c # cs = pre @ h @ post \<and> is_line_terminator (last pre) \<and> line_end post)"
  proof
    assume "hasHeading_from (is_line_terminator c) cs h"
    then consider (a) post where "is_line_terminator c" "cs = h @ post" "line_end post"
      | (b) pre post where "pre \<noteq> []" "cs = pre @ h @ post" "is_line_terminator (last pre)" "line_end post"
      unfolding Cons.IH by blast
    then show "\<exists>pre post. pre \<noteq> [] \<and> c # cs = pre @ h @ post \<and> is_line_terminator (last pre) \<and> line_end post"
    proof cases
      case a
      then have "[c] \<noteq> [] \<and> c # cs = [c] @ h @ post \<and> is_line_terminator (last [c]) \<and> line_end post"
        by simp
      then show ?thesis by blast
    next
      case b
      then have "c # pre \<noteq> [] \<and> c # cs = (c # pre) @ h @ post \<and>
                 is_line_terminator (last (c # pre)) \<and> line_end post"
        by simp
      then show ?thesis by blast
    qed
  next
    assume "\<exists>pre post. pre \<noteq> [] \<and> c # cs = pre @ h @ post \<and> is_line_terminator (last pre) \<and> line_end post"
    then obtain pre post where p: "pre \<noteq> []" "c # cs = pre @ h @ post"
        "is_line_terminator (last pre)" "line_end post" by blast
    then obtain pre' where pre: "pre = c # pre'" by (cases pre) auto
    show "hasHeading_from (is_line_terminator c) cs h"
    proof (cases pre')
      case Nil
      then have "is_line_terminator c \<and> cs = h @ post \<and> line_end post"
        using p pre by simp
      then show ?thesis unfolding Cons.IH by blast
    next
      case (Cons x xs)
      then have "pre' \<noteq> [] \<and> cs = pre' @ h @ post \<and> is_line_terminator (last pre') \<and> line_end post"
        using p pre by simp
      then show ?thesis unfolding Cons.IH by blast
    qed
  qed
  show ?case
    unfolding hasHeading_from.simps first rest by blast
qed

lemma line_end_iff:
  "line_end t \<longleftrightarrow>
     (\<exists>blanks after. t = blanks @ after \<and> list_all is_space blanks \<and>
        (after = [] \<or> is_line_terminator (hd after)))"
proof (induction t)
  case Nil
  then show ?case by simp
next
  case (Cons c cs)
  show ?case
  proof
    assume "line_end (c # cs)"
    then consider "is_line_terminator c" | "is_space c" "line_end cs" by auto
    then show "\<exists>blanks after. c # cs = blanks @ after \<and> list_all is_space blanks \<and>
        (after = [] \<or> is_line_terminator (hd after))"
    proof cases
      case 1
      then have "c # cs = [] @ (c # cs) \<and> list_all is_space [] \<and>
          (c # cs = [] \<or> is_line_terminator (hd (c # cs)))" by simp
      then show ?thesis by blast
    next
      case 2
      then obtain blanks after where "cs = blanks @ after" "list_all is_space blanks"
          "after = [] \<or> is_line_terminator (hd after)"
        using Cons.IH by blast
      then have "c # cs = (c # blanks) @ after \<and> list_all is_space (c # blanks) \<and>
          (after = [] \<or> is_line_terminator (hd after))"
        using 2(1) by simp
      then show ?thesis by blast
    qed
  next
    assume "\<exists>blanks after. c # cs = blanks @ after \<and> list_all is_space blanks \<and>
        (after = [] \<or> is_line_terminator (hd after))"
    then obtain blanks after where h: "c # cs = blanks @ after" "list_all is_space blanks"
        "after = [] \<or> is_line_terminator (hd after)" by blast
    show "line_end (c # cs)"
    proof (cases blanks)
      case Nil
      then have "after = c # cs" using h(1) by simp
      then show ?thesis using h(3) by simp
    next
      case (Cons b bs)
      then have "b = c" "cs = bs @ after" "is_space c" "list_all is_space bs"
        using h(1,2) by simp_all
      then have "line_end cs" using Cons.IH h(3) by blast
      then show ?thesis using \<open>is_space c\<close> by simp
    qed
  qed
qed

lemma hasHeading_iff: "hasHeading markdown heading \<longleftrightarrow> headingPresent markdown heading"
proof -
  have "hasHeading markdown heading \<longleftrightarrow>
     (\<exists>post. markdown = heading @ post \<and> line_end post) \<or>
     (\<exists>pre post. pre \<noteq> [] \<and> markdown = pre @ heading @ post \<and>
        is_line_terminator (last pre) \<and> line_end post)"
    unfolding hasHeading_def hasHeading_from_iff by simp
  also have "\<dots> \<longleftrightarrow>
     (\<exists>before post. markdown = before @ heading @ post \<and>
        (before = [] \<or> is_line_terminator (last before)) \<and> line_end post)"
    by (metis append_Nil)
  also have "\<dots> \<longleftrightarrow> headingPresent markdown heading"
    unfolding headingPresent_def line_end_iff by blast
  finally show ?thesis .
qed


subsection \<open>Lines\<close>

lemma crlf_to_lf_Cons:
  "\<not> (c = CHR 0x0D \<and> xs \<noteq> [] \<and> hd xs = CHR 0x0A) \<Longrightarrow> crlf_to_lf (c # xs) = c # crlf_to_lf xs"
  by (cases xs) auto

lemma crlf_to_lf_no_lf: "CHR 0x0A \<notin> set l \<Longrightarrow> crlf_to_lf l = l"
proof (induction l)
  case Nil
  then show ?case by simp
next
  case (Cons x l)
  then have "crlf_to_lf (x # l) = x # crlf_to_lf l"
    by (intro crlf_to_lf_Cons) (cases l; auto)
  then show ?case using Cons by simp
qed

lemma crlf_to_lf_line_feed:
  "CHR 0x0A \<notin> set l \<Longrightarrow> l = [] \<or> last l \<noteq> CHR 0x0D \<Longrightarrow>
     crlf_to_lf (l @ CHR 0x0A # rest) = l @ CHR 0x0A # crlf_to_lf rest"
proof (induction l)
  case Nil
  show ?case using crlf_to_lf_Cons[of "CHR 0x0A" rest] by simp
next
  case (Cons x l)
  have "crlf_to_lf (x # (l @ CHR 0x0A # rest)) = x # crlf_to_lf (l @ CHR 0x0A # rest)"
  proof (rule crlf_to_lf_Cons)
    show "\<not> (x = CHR 0x0D \<and> l @ CHR 0x0A # rest \<noteq> [] \<and> hd (l @ CHR 0x0A # rest) = CHR 0x0A)"
      using Cons.prems by (cases l) auto
  qed
  moreover have "l = [] \<or> last l \<noteq> CHR 0x0D" using Cons.prems by (cases l) auto
  ultimately show ?case using Cons by simp
qed

lemma crlf_to_lf_cr_line_feed:
  "CHR 0x0A \<notin> set l \<Longrightarrow>
     crlf_to_lf (l @ CHR 0x0D # CHR 0x0A # rest) = l @ CHR 0x0A # crlf_to_lf rest"
proof (induction l)
  case Nil
  show ?case by simp
next
  case (Cons x l)
  have "crlf_to_lf (x # (l @ CHR 0x0D # CHR 0x0A # rest))
          = x # crlf_to_lf (l @ CHR 0x0D # CHR 0x0A # rest)"
  proof (rule crlf_to_lf_Cons)
    show "\<not> (x = CHR 0x0D \<and> l @ CHR 0x0D # CHR 0x0A # rest \<noteq> [] \<and>
              hd (l @ CHR 0x0D # CHR 0x0A # rest) = CHR 0x0A)"
      using Cons.prems by (cases l) auto
  qed
  then show ?case using Cons by simp
qed

lemma split_on_no_sep: "c \<notin> set l \<Longrightarrow> split_on c l = [l]"
  by (induction l) auto

lemma split_on_append: "c \<notin> set l \<Longrightarrow> split_on c (l @ c # rest) = l # split_on c rest"
  by (induction l) auto

lemma textLines_sound:
  "textLines markdown ls \<Longrightarrow> split_on (CHR 0x0A) (crlf_to_lf markdown) = ls"
proof (induction rule: textLines.induct)
  case (lastLine l)
  then show ?case by (simp add: crlf_to_lf_no_lf split_on_no_sep)
next
  case (lineFeed l rest ls)
  then show ?case by (simp add: crlf_to_lf_line_feed split_on_append)
next
  case (crLineFeed l rest ls)
  then show ?case by (simp add: crlf_to_lf_cr_line_feed split_on_append)
qed

lemma textLines_exist: "\<exists>ls. textLines markdown ls"
proof (induction markdown rule: length_induct)
  case (1 md)
  show ?case
  proof (cases "CHR 0x0A \<in> set md")
    case False
    then have "textLines md [md]" by (rule textLines.lastLine)
    then show ?thesis ..
  next
    case True
    then obtain l rest where md: "md = l @ CHR 0x0A # rest" and l: "CHR 0x0A \<notin> set l"
      using split_list_first[of "CHR 0x0A" md] by blast
    have "length rest < length md" using md by simp
    then obtain ls where ls: "textLines rest ls" using 1 by blast
    show ?thesis
    proof (cases "l = [] \<or> last l \<noteq> CHR 0x0D")
      case True
      then have "textLines (l @ CHR 0x0A # rest) (l # ls)"
        using l ls by (intro textLines.lineFeed)
      then show ?thesis unfolding md ..
    next
      case False
      then have l': "l = butlast l @ [CHR 0x0D]"
        using append_butlast_last_id[of l] by simp
      have "CHR 0x0A \<notin> set (butlast l)" using l by (metis in_set_butlastD)
      then have "textLines (butlast l @ CHR 0x0D # CHR 0x0A # rest) (butlast l # ls)"
        using ls by (intro textLines.crLineFeed)
      moreover have "md = butlast l @ CHR 0x0D # CHR 0x0A # rest"
        using md l' by (metis append.assoc append_Cons append_Nil)
      ultimately show ?thesis by auto
    qed
  qed
qed

lemma textLines_iff:
  "textLines markdown ls \<longleftrightarrow> ls = split_on (CHR 0x0A) (crlf_to_lf markdown)"
proof
  assume "textLines markdown ls"
  then show "ls = split_on (CHR 0x0A) (crlf_to_lf markdown)"
    using textLines_sound by simp
next
  assume e: "ls = split_on (CHR 0x0A) (crlf_to_lf markdown)"
  obtain ls' where l: "textLines markdown ls'" using textLines_exist by blast
  then have "ls' = ls" using textLines_sound e by simp
  then show "textLines markdown ls" using l by simp
qed

subsection \<open>White space at the ends\<close>

lemma dropWhile_trim:
  "dropWhile is_space s = trim s @ rev (takeWhile is_space (rev (dropWhile is_space s)))"
proof -
  let ?u = "dropWhile is_space s"
  have "trim s @ rev (takeWhile is_space (rev ?u))
          = rev (takeWhile is_space (rev ?u) @ dropWhile is_space (rev ?u))"
    unfolding trim_def rev_append ..
  also have "\<dots> = ?u"
    unfolding takeWhile_dropWhile_id rev_rev_ident ..
  finally show ?thesis by (rule sym)
qed

lemma trim_decompose:
  "\<exists>a b. s = a @ trim s @ b \<and> list_all is_space a \<and> list_all is_space b"
proof -
  let ?u = "dropWhile is_space s"
  let ?b = "rev (takeWhile is_space (rev ?u))"
  have "s = takeWhile is_space s @ ?u" by simp
  then have 1: "s = takeWhile is_space s @ trim s @ ?b"
    using dropWhile_trim[of s] by simp
  have "list_all is_space (takeWhile is_space (rev ?u))"
    by (rule list_all_takeWhile)
  then have 3: "list_all is_space ?b"
    unfolding list_all_iff by simp
  from 1 3 list_all_takeWhile[of is_space s] show ?thesis by blast
qed

lemma trim_ends:
  assumes "trim s \<noteq> []"
  shows "\<not> is_space (hd (trim s))" and "\<not> is_space (last (trim s))"
proof -
  let ?u = "dropWhile is_space s"
  let ?v = "dropWhile is_space (rev ?u)"
  have t: "trim s = rev ?v" by (simp add: trim_def)
  have v: "?v \<noteq> []" using assms unfolding t by simp
  then have "\<not> is_space (hd ?v)" by (rule hd_dropWhile)
  moreover have "last (rev ?v) = hd ?v" by (simp add: last_rev)
  ultimately show "\<not> is_space (last (trim s))" unfolding t by simp
  have u: "?u \<noteq> []"
  proof
    assume e: "?u = []"
    show False using v unfolding e by simp
  qed
  then have hu: "\<not> is_space (hd ?u)" by (rule hd_dropWhile)
  have "hd ?u = hd (trim s @ rev (takeWhile is_space (rev ?u)))"
    using dropWhile_trim[of s] by simp
  also have "\<dots> = hd (trim s)" using assms by (rule hd_append2)
  finally show "\<not> is_space (hd (trim s))" using hu by simp
qed

lemma dropWhile_all: "list_all P xs \<Longrightarrow> dropWhile P (xs @ ys) = dropWhile P ys"
  by (induction xs) simp_all

lemma dropWhile_none: "xs \<noteq> [] \<Longrightarrow> \<not> P (hd xs) \<Longrightarrow> dropWhile P (xs @ ys) = xs @ ys"
  by (cases xs) simp_all

lemma trim_of_stripped:
  assumes "s = a @ t @ b" "list_all is_space a" "list_all is_space b"
      "t = [] \<or> (\<not> is_space (hd t) \<and> \<not> is_space (last t))"
  shows "trim s = t"
proof (cases "t = []")
  case True
  have "dropWhile is_space (a @ b) = dropWhile is_space b"
    using assms(2) by (rule dropWhile_all)
  also have "\<dots> = dropWhile is_space (b @ [])" by simp
  also have "\<dots> = []" using dropWhile_all[OF assms(3), of "[]"] by simp
  finally have "dropWhile is_space (a @ b) = []" .
  then have e: "dropWhile is_space s = []" unfolding assms(1) True by simp
  have "trim s = []" unfolding trim_def e by simp
  then show ?thesis using True by simp
next
  case False
  then have e: "\<not> is_space (hd t)" "\<not> is_space (last t)" using assms(4) by simp_all
  have 1: "dropWhile is_space s = t @ b"
    unfolding assms(1) dropWhile_all[OF assms(2)] using False e(1) by (rule dropWhile_none)
  have rb: "list_all is_space (rev b)" using assms(3) unfolding list_all_iff by simp
  have rt: "rev t \<noteq> []" "\<not> is_space (hd (rev t))"
    using False e(2) by (simp_all add: hd_rev)
  have "dropWhile is_space (rev (t @ b)) = dropWhile is_space (rev b @ rev t)" by simp
  also have "\<dots> = dropWhile is_space (rev t @ [])"
    using dropWhile_all[OF rb, of "rev t"] by simp
  also have "\<dots> = rev t @ []" using rt by (rule dropWhile_none)
  finally have 2: "dropWhile is_space (rev (t @ b)) = rev t" by simp
  show ?thesis unfolding trim_def 1 2 by simp
qed

lemma strippedOf_iff: "strippedOf s t \<longleftrightarrow> t = trim s"
proof
  assume "strippedOf s t"
  then obtain a b where "s = a @ t @ b" "list_all is_space a" "list_all is_space b"
      "t = [] \<or> (\<not> is_space (hd t) \<and> \<not> is_space (last t))"
    unfolding strippedOf_def by blast
  then show "t = trim s" using trim_of_stripped[of s a t b] by simp
next
  assume t: "t = trim s"
  obtain a b where ab: "s = a @ trim s @ b" "list_all is_space a" "list_all is_space b"
    using trim_decompose by blast
  have "trim s = [] \<or> (\<not> is_space (hd (trim s)) \<and> \<not> is_space (last (trim s)))"
    using trim_ends[of s] by blast
  with ab have "s = a @ trim s @ b \<and> list_all is_space a \<and> list_all is_space b \<and>
      (trim s = [] \<or> (\<not> is_space (hd (trim s)) \<and> \<not> is_space (last (trim s))))"
    by simp
  then show "strippedOf s t"
    unfolding strippedOf_def t by (intro exI)
qed

subsection \<open>Headings\<close>

lemma hash_not_space: "\<not> is_space (CHR ''#'')"
  by (simp add: is_space_def)

lemma takeWhile_eq_replicate:
  "takeWhile (\<lambda>c. c = x) s = replicate (length (takeWhile (\<lambda>c. c = x) s)) x"
  by (induction s) simp_all

lemma headingLevelMatch_iff: "headingLevelMatch s = Some k \<longleftrightarrow> headingOfDepth k s"
proof
  assume h: "headingLevelMatch s = Some k"
  let ?n = "length (takeWhile (\<lambda>c. c = CHR ''#'') s)"
  from h have k: "k = ?n" "1 \<le> ?n"
      and d: "(case drop ?n s of [] \<Rightarrow> False | c # _ \<Rightarrow> is_space c)"
    by (auto simp: headingLevelMatch_def Let_def split: if_splits)
  from d obtain c rest where c: "drop ?n s = c # rest" "is_space c"
    by (cases "drop ?n s") auto
  have "s = takeWhile (\<lambda>c. c = CHR ''#'') s @ dropWhile (\<lambda>c. c = CHR ''#'') s" by simp
  also have "dropWhile (\<lambda>c. c = CHR ''#'') s = drop ?n s" by (rule dropWhile_eq_drop)
  also have "takeWhile (\<lambda>c. c = CHR ''#'') s = replicate ?n (CHR ''#'')"
    by (rule takeWhile_eq_replicate)
  finally have "s = replicate k (CHR ''#'') @ c # rest" using c(1) k(1) by simp
  then show "headingOfDepth k s"
    unfolding headingOfDepth_def using k c(2) by auto
next
  assume "headingOfDepth k s"
  then obtain c rest where k: "0 < k" and s: "s = replicate k (CHR ''#'') @ c # rest"
      and c: "is_space c"
    unfolding headingOfDepth_def by blast
  have cn: "c \<noteq> CHR ''#''" using c hash_not_space by auto
  have t: "takeWhile (\<lambda>c. c = CHR ''#'') s = replicate k (CHR ''#'')"
    unfolding s using cn by (induction k) simp_all
  have "drop k s = c # rest" unfolding s by simp
  then show "headingLevelMatch s = Some k"
    using k c by (simp add: headingLevelMatch_def t)
qed

lemma headingLevelMatch_None_iff: "headingLevelMatch s = None \<longleftrightarrow> (\<forall>k. \<not> headingOfDepth k s)"
  using headingLevelMatch_iff[of s] by (cases "headingLevelMatch s") auto

lemma isTitleLine_iff: "isTitleLine heading l \<longleftrightarrow> trim l = trim heading"
  unfolding isTitleLine_def strippedOf_iff by auto

lemma closesSection_iff:
  "closesSection d l \<longleftrightarrow>
     (case headingLevelMatch (trim l) of None \<Rightarrow> False | Some k \<Rightarrow> k \<le> d)"
proof -
  have "closesSection d l \<longleftrightarrow> (\<exists>k. headingLevelMatch (trim l) = Some k \<and> k \<le> d)"
    unfolding closesSection_def strippedOf_iff headingLevelMatch_iff by auto
  then show ?thesis by (cases "headingLevelMatch (trim l)") auto
qed

subsection \<open>The section of a heading\<close>

lemma findIndex_dropWhile:
  "findIndex p xs =
     (if dropWhile (\<lambda>x. \<not> p x) xs = [] then None
      else Some (length (takeWhile (\<lambda>x. \<not> p x) xs)))"
  by (induction xs) auto

lemma sectionEnd_takeWhile:
  "sectionEnd d idx ls = idx + length (takeWhile (\<lambda>l. \<not> closesSection d l) ls)"
proof (induction ls arbitrary: idx)
  case Nil
  then show ?case by simp
next
  case (Cons l ls)
  show ?case
    by (cases "headingLevelMatch (trim l)") (simp_all add: Cons closesSection_iff)
qed

lemma first_split_unique:
  assumes "xs = before @ x # after" "\<forall>y \<in> set before. \<not> p y" "p x"
  shows "takeWhile (\<lambda>y. \<not> p y) xs = before" and "dropWhile (\<lambda>y. \<not> p y) xs = x # after"
  using assms by (simp_all add: takeWhile_append2 dropWhile_append2)

lemma span_unique:
  assumes "xs = inside @ after" "\<forall>y \<in> set inside. \<not> p y" "after = [] \<or> p (hd after)"
  shows "takeWhile (\<lambda>y. \<not> p y) xs = inside"
proof (cases after)
  case Nil
  then show ?thesis using assms by simp
next
  case (Cons a as)
  then show ?thesis using assms by (simp add: takeWhile_append2)
qed

lemma span_exists:
  "xs = takeWhile (\<lambda>y. \<not> p y) xs @ dropWhile (\<lambda>y. \<not> p y) xs \<and>
   (\<forall>y \<in> set (takeWhile (\<lambda>y. \<not> p y) xs). \<not> p y) \<and>
   (dropWhile (\<lambda>y. \<not> p y) xs = [] \<or> p (hd (dropWhile (\<lambda>y. \<not> p y) xs)))"
proof -
  have "\<forall>y \<in> set (takeWhile (\<lambda>y. \<not> p y) xs). \<not> p y"
    by (metis (mono_tags, lifting) set_takeWhileD)
  moreover have "dropWhile (\<lambda>y. \<not> p y) xs = [] \<or> p (hd (dropWhile (\<lambda>y. \<not> p y) xs))"
    using hd_dropWhile[of "\<lambda>y. \<not> p y" xs] by blast
  ultimately show ?thesis by simp
qed

lemma trim_snoc_space: "is_space c \<Longrightarrow> trim (x @ [c]) = trim x"
proof -
  assume c: "is_space c"
  obtain a b where ab: "x = a @ trim x @ b" "list_all is_space a" "list_all is_space b"
    using trim_decompose by blast
  have "x @ [c] = a @ trim x @ (b @ [c])" using ab(1) by (metis append.assoc)
  moreover have "list_all is_space (b @ [c])" using ab(3) c by simp
  moreover have "trim x = [] \<or> (\<not> is_space (hd (trim x)) \<and> \<not> is_space (last (trim x)))"
    using trim_ends[of x] by blast
  ultimately show ?thesis using ab(2) trim_of_stripped[of "x @ [c]" a "trim x" "b @ [c]"] by blast
qed

lemma concat_lines: "ls \<noteq> [] \<Longrightarrow> concat (map (\<lambda>l. l @ [c]) ls) = join [c] ls @ [c]"
  by (induction ls rule: induct_list012) simp_all

lemma trim_concat_lines:
  "trim (concat (map (\<lambda>l. l @ [CHR 0x0A]) ls)) = trim (join [CHR 0x0A] ls)"
proof (cases "ls = []")
  case True
  then show ?thesis by simp
next
  case False
  have "is_space (CHR 0x0A)" by (simp add: is_space_def)
  then show ?thesis using concat_lines[OF False, of "CHR 0x0A"] by (simp add: trim_snoc_space)
qed


lemma getSectionBody_cases:
  assumes "headingLevelMatch heading = Some d"
  shows "getSectionBody markdown heading =
     (case dropWhile (\<lambda>l. \<not> isTitleLine heading l) (split_on (CHR 0x0A) (crlf_to_lf markdown)) of
        [] \<Rightarrow> []
      | titleLine # rest \<Rightarrow> trim (join [CHR 0x0A] (takeWhile (\<lambda>l. \<not> closesSection d l) rest)))"
proof -
  let ?ls = "split_on (CHR 0x0A) (crlf_to_lf markdown)"
  let ?p = "\<lambda>line. trim line = trim heading"
  have p: "(\<lambda>l. \<not> isTitleLine heading l) = (\<lambda>l. \<not> ?p l)"
    by (simp add: isTitleLine_iff)
  show ?thesis
  proof (cases "dropWhile (\<lambda>l. \<not> ?p l) ?ls")
    case Nil
    show ?thesis
      unfolding p getSectionBody_def Let_def findIndex_dropWhile Nil by simp
  next
    case (Cons titleLine rest)
    let ?i = "length (takeWhile (\<lambda>l. \<not> ?p l) ?ls)"
    have f: "findIndex ?p ?ls = Some ?i" using Cons by (simp add: findIndex_dropWhile)
    have "drop ?i ?ls = titleLine # rest"
      using Cons dropWhile_eq_drop[of "\<lambda>l. \<not> ?p l" ?ls] by simp
    then have dr: "drop (?i + 1) ?ls = rest"
      using drop_Suc[of ?i ?ls] by (simp add: drop_Suc tl_drop[symmetric])
    have tk: "take (length (takeWhile (\<lambda>l. \<not> closesSection d l) rest)) rest
                = takeWhile (\<lambda>l. \<not> closesSection d l) rest"
      by (rule takeWhile_eq_take[symmetric])
    have "getSectionBody markdown heading
            = trim (join [CHR 0x0A] (takeWhile (\<lambda>l. \<not> closesSection d l) rest))"
      unfolding getSectionBody_def Let_def f option.case assms dr sectionEnd_takeWhile
      using tk by simp
    then show ?thesis unfolding p Cons by simp
  qed
qed

lemma sectionBody_iff:
  assumes "headingOfDepth d heading"
  shows "sectionBody markdown heading txt \<longleftrightarrow> txt = getSectionBody markdown heading"
proof -
  let ?ls = "split_on (CHR 0x0A) (crlf_to_lf markdown)"
  let ?T = "\<lambda>l. \<not> isTitleLine heading l"
  let ?C = "\<lambda>l. \<not> closesSection d l"
  have m: "headingLevelMatch heading = Some d"
    using assms by (simp add: headingLevelMatch_iff)
  note G = getSectionBody_cases[OF m, of markdown]
  show ?thesis
  proof
    assume "sectionBody markdown heading txt"
    then obtain ls d' where ls: "textLines markdown ls" and d': "headingOfDepth d' heading"
        and c: "(\<forall>l \<in> set ls. \<not> isTitleLine heading l) \<and> txt = []
         \<or> (\<exists>before titleLine inside after.
               ls = before @ titleLine # inside @ after \<and>
               (\<forall>l \<in> set before. \<not> isTitleLine heading l) \<and> isTitleLine heading titleLine \<and>
               (\<forall>l \<in> set inside. \<not> closesSection d' l) \<and>
               (after = [] \<or> closesSection d' (hd after)) \<and>
               strippedOf (concat (map (\<lambda>l. l @ [CHR 0x0A]) inside)) txt)"
      unfolding sectionBody_def by blast
    have e: "ls = ?ls" using ls by (simp add: textLines_iff)
    have "headingLevelMatch heading = Some d'" using d' by (simp add: headingLevelMatch_iff)
    then have dd: "d' = d" using m by simp
    from c show "txt = getSectionBody markdown heading"
    proof
      assume a: "(\<forall>l \<in> set ls. \<not> isTitleLine heading l) \<and> txt = []"
      then have n: "dropWhile ?T ?ls = []" unfolding e by simp
      show ?thesis unfolding G n using a by simp
    next
      assume "\<exists>before titleLine inside after.
               ls = before @ titleLine # inside @ after \<and>
               (\<forall>l \<in> set before. \<not> isTitleLine heading l) \<and> isTitleLine heading titleLine \<and>
               (\<forall>l \<in> set inside. \<not> closesSection d' l) \<and>
               (after = [] \<or> closesSection d' (hd after)) \<and>
               strippedOf (concat (map (\<lambda>l. l @ [CHR 0x0A]) inside)) txt"
      then obtain before titleLine inside after where
          s: "ls = before @ titleLine # (inside @ after)"
          and b: "\<forall>l \<in> set before. \<not> isTitleLine heading l" and t: "isTitleLine heading titleLine"
          and i: "\<forall>l \<in> set inside. \<not> closesSection d l"
          and a: "after = [] \<or> closesSection d (hd after)"
          and x: "strippedOf (concat (map (\<lambda>l. l @ [CHR 0x0A]) inside)) txt"
        unfolding dd by auto
      have 1: "dropWhile ?T ?ls = titleLine # (inside @ after)"
        using first_split_unique(2)[of ls before titleLine "inside @ after" "isTitleLine heading"] s b t e
        by simp
      have 2: "takeWhile ?C (inside @ after) = inside"
        using span_unique[of "inside @ after" inside after "closesSection d"] i a by simp
      have "txt = trim (join [CHR 0x0A] inside)"
        using x by (simp add: strippedOf_iff trim_concat_lines)
      then show ?thesis unfolding G 1 using 2 by simp
    qed
  next
    assume t: "txt = getSectionBody markdown heading"
    have ls: "textLines markdown ?ls" by (simp add: textLines_iff)
    show "sectionBody markdown heading txt"
    proof (cases "dropWhile ?T ?ls")
      case Nil
      then have "\<forall>l \<in> set ?ls. \<not> isTitleLine heading l" by simp
      moreover have "txt = []" unfolding t G Nil by simp
      ultimately show ?thesis
        unfolding sectionBody_def using ls assms by blast
    next
      case (Cons titleLine rest)
      let ?before = "takeWhile ?T ?ls"
      let ?inside = "takeWhile ?C rest"
      let ?after = "dropWhile ?C rest"
      have "?ls = ?before @ dropWhile ?T ?ls" by simp
      then have 1: "?ls = ?before @ titleLine # ?inside @ ?after" using Cons by simp
      have 2: "\<forall>l \<in> set ?before. \<not> isTitleLine heading l"
        using span_exists[of ?ls "isTitleLine heading"] by blast
      have 3: "isTitleLine heading titleLine"
        using span_exists[of ?ls "isTitleLine heading"] Cons by simp
      have 4: "\<forall>l \<in> set ?inside. \<not> closesSection d l"
        using span_exists[of rest "closesSection d"] by blast
      have 5: "?after = [] \<or> closesSection d (hd ?after)"
        using span_exists[of rest "closesSection d"] by blast
      have "txt = trim (join [CHR 0x0A] ?inside)" unfolding t G Cons by simp
      then have 6: "strippedOf (concat (map (\<lambda>l. l @ [CHR 0x0A]) ?inside)) txt"
        by (simp add: strippedOf_iff trim_concat_lines)
      have "\<exists>before titleLine inside after.
               ?ls = before @ titleLine # inside @ after \<and>
               (\<forall>l \<in> set before. \<not> isTitleLine heading l) \<and> isTitleLine heading titleLine \<and>
               (\<forall>l \<in> set inside. \<not> closesSection d l) \<and>
               (after = [] \<or> closesSection d (hd after)) \<and>
               strippedOf (concat (map (\<lambda>l. l @ [CHR 0x0A]) inside)) txt"
        using 1 2 3 4 5 6 by blast
      then show ?thesis
        unfolding sectionBody_def using ls assms by blast
    qed
  qed
qed

lemma sectionBody_unique:
  assumes "headingOfDepth d heading"
  shows "\<exists>!txt. sectionBody markdown heading txt"
  unfolding sectionBody_iff[OF assms] by simp

lemma required_depths:
  "headingOfDepth 2 ''## 1. Key Problems and Challenges''"
  "headingOfDepth 2 ''## 2. How This Paper Solves Them''"
  "headingOfDepth 2 ''## 3. Related Work and Key Differences''"
  "headingOfDepth 2 ''## 4. Future Directions''"
  "headingOfDepth 2 ''## References''"
  "headingOfDepth 1 ''# Paper''"
  unfolding headingLevelMatch_iff[symmetric]
  by (simp_all add: headingLevelMatch_def is_space_def)


lemma required_have_depth:
  assumes "h \<in> set REQUIRED_REPORT_HEADINGS"
  shows "\<exists>d. headingOfDepth d h"
proof -
  from assms have "h = ''# Paper'' \<or> h = ''## 1. Key Problems and Challenges''
      \<or> h = ''## 2. How This Paper Solves Them'' \<or> h = ''## 3. Related Work and Key Differences''
      \<or> h = ''## 4. Future Directions'' \<or> h = ''## References''"
    unfolding REQUIRED_REPORT_HEADINGS_def by simp
  then show ?thesis
  proof (elim disjE)
    assume h: "h = ''# Paper''"
    show ?thesis unfolding h by (rule exI) (rule required_depths(6))
  next
    assume h: "h = ''## 1. Key Problems and Challenges''"
    show ?thesis unfolding h by (rule exI) (rule required_depths(1))
  next
    assume h: "h = ''## 2. How This Paper Solves Them''"
    show ?thesis unfolding h by (rule exI) (rule required_depths(2))
  next
    assume h: "h = ''## 3. Related Work and Key Differences''"
    show ?thesis unfolding h by (rule exI) (rule required_depths(3))
  next
    assume h: "h = ''## 4. Future Directions''"
    show ?thesis unfolding h by (rule exI) (rule required_depths(4))
  next
    assume h: "h = ''## References''"
    show ?thesis unfolding h by (rule exI) (rule required_depths(5))
  qed
qed

lemma required_sections:
  assumes "h \<in> set REQUIRED_REPORT_HEADINGS"
  shows "sectionBody markdown h txt \<longleftrightarrow> txt = getSectionBody markdown h"
proof -
  from required_have_depth[OF assms] obtain d where "headingOfDepth d h" by (rule exE)
  then show ?thesis by (rule sectionBody_iff)
qed

lemma question_headings_required:
  "h \<in> set REQUIRED_QUESTION_HEADINGS \<Longrightarrow> h \<in> set REQUIRED_REPORT_HEADINGS"
  unfolding REQUIRED_QUESTION_HEADINGS_def REQUIRED_REPORT_HEADINGS_def by auto

subsection \<open>Completeness\<close>

lemma validate_exampleReport:
  "validateReport exampleReport =
     \<lparr> hasAllRequiredHeadings = False, missingHeadings = [''## References''],
       answeredRequiredQuestions = False, hasRelatedWorkComparison = True,
       hasReferenceUrls = False, isComplete = False \<rparr>"
  by code_simp

text \<open>
  Claim C6. For every report text (of Latin-1 code units), \<^verbatim>\<open>isComplete\<close> holds exactly
  when the four checks all hold: every required heading is present; the body of each of the
  four question sections has at least 120 characters; the body of the related-work section
  has a comparison word and a bracket citation or a URL (in any case of \<^verbatim>\<open>http\<close>); the body
  of the references section has a URL. Each of the four flags of the result is its check,
  and \<^verbatim>\<open>missingHeadings\<close> is the list of the required headings that are not present, in the
  order of the required list. The checks are the ones of the specification, stated above
  without the functions of the code; every required heading has exactly one section body.
\<close>

theorem report_complete_iff_all_checks:
  "isComplete (validateReport markdown) =
     ((\<forall>h \<in> set REQUIRED_REPORT_HEADINGS. headingPresent markdown h)
      \<and> (\<forall>h \<in> set REQUIRED_QUESTION_HEADINGS.
            \<exists>txt. sectionBody markdown h txt \<and> 120 \<le> length txt)
      \<and> (\<exists>txt. sectionBody markdown ''## 3. Related Work and Key Differences'' txt
             \<and> containsComparisonWord txt
             \<and> (containsBracketCitation txt \<or> containsUrlAnyCase txt))
      \<and> (\<exists>txt. sectionBody markdown ''## References'' txt \<and> containsUrl txt))
   \<and> hasAllRequiredHeadings (validateReport markdown) =
     (\<forall>h \<in> set REQUIRED_REPORT_HEADINGS. headingPresent markdown h)
   \<and> answeredRequiredQuestions (validateReport markdown) =
     (\<forall>h \<in> set REQUIRED_QUESTION_HEADINGS.
         \<exists>txt. sectionBody markdown h txt \<and> 120 \<le> length txt)
   \<and> hasRelatedWorkComparison (validateReport markdown) =
     (\<exists>txt. sectionBody markdown ''## 3. Related Work and Key Differences'' txt
         \<and> containsComparisonWord txt
         \<and> (containsBracketCitation txt \<or> containsUrlAnyCase txt))
   \<and> hasReferenceUrls (validateReport markdown) =
     (\<exists>txt. sectionBody markdown ''## References'' txt \<and> containsUrl txt)
   \<and> missingHeadings (validateReport markdown) =
     filter (\<lambda>h. \<not> headingPresent markdown h) REQUIRED_REPORT_HEADINGS
   \<and> (\<forall>h \<in> set REQUIRED_REPORT_HEADINGS. \<exists>!txt. sectionBody markdown h txt)"
proof -
  have rel: "''## 3. Related Work and Key Differences'' \<in> set REQUIRED_REPORT_HEADINGS"
    and ref: "''## References'' \<in> set REQUIRED_REPORT_HEADINGS"
    unfolding REQUIRED_REPORT_HEADINGS_def by simp_all
  have ex: "(\<exists>txt. sectionBody markdown h txt \<and> Q txt) = Q (getSectionBody markdown h)"
    if "h \<in> set REQUIRED_REPORT_HEADINGS" for h Q
    unfolding required_sections[OF that] by simp
  have m: "missingHeadings (validateReport markdown) =
     filter (\<lambda>h. \<not> headingPresent markdown h) REQUIRED_REPORT_HEADINGS"
    by (simp add: validateReport_def Let_def hasHeading_iff)
  have a: "hasAllRequiredHeadings (validateReport markdown) =
     (\<forall>h \<in> set REQUIRED_REPORT_HEADINGS. headingPresent markdown h)"
    by (simp add: validateReport_def Let_def hasHeading_iff filter_empty_conv)
  have "answeredRequiredQuestions (validateReport markdown) =
     (\<forall>h \<in> set REQUIRED_QUESTION_HEADINGS. 120 \<le> length (getSectionBody markdown h))"
    by (simp add: validateReport_def Let_def list_all_iff)
  also have "\<dots> = (\<forall>h \<in> set REQUIRED_QUESTION_HEADINGS.
         \<exists>txt. sectionBody markdown h txt \<and> 120 \<le> length txt)"
    using ex[OF question_headings_required, of _ "\<lambda>txt. 120 \<le> length txt"] by simp
  finally have q: "answeredRequiredQuestions (validateReport markdown) =
     (\<forall>h \<in> set REQUIRED_QUESTION_HEADINGS.
         \<exists>txt. sectionBody markdown h txt \<and> 120 \<le> length txt)" .
  have r: "hasRelatedWorkComparison (validateReport markdown) =
     (\<exists>txt. sectionBody markdown ''## 3. Related Work and Key Differences'' txt
         \<and> containsComparisonWord txt
         \<and> (containsBracketCitation txt \<or> containsUrlAnyCase txt))"
    unfolding ex[OF rel, of "\<lambda>txt. containsComparisonWord txt
         \<and> (containsBracketCitation txt \<or> containsUrlAnyCase txt)"]
    by (simp add: validateReport_def Let_def hasComparisonKeyword_iff hasBracketCitation_iff
          hasUrlIgnoreCase_iff)
  have u: "hasReferenceUrls (validateReport markdown) =
     (\<exists>txt. sectionBody markdown ''## References'' txt \<and> containsUrl txt)"
    unfolding ex[OF ref, of containsUrl]
    by (simp add: validateReport_def Let_def hasUrl_iff)
  have c: "isComplete (validateReport markdown) =
     (hasAllRequiredHeadings (validateReport markdown)
      \<and> answeredRequiredQuestions (validateReport markdown)
      \<and> hasRelatedWorkComparison (validateReport markdown)
      \<and> hasReferenceUrls (validateReport markdown))"
    by (simp add: validateReport_def Let_def)
  have one: "\<forall>h \<in> set REQUIRED_REPORT_HEADINGS. \<exists>!txt. sectionBody markdown h txt"
    using required_sections by simp
  have all: "isComplete (validateReport markdown) =
     ((\<forall>h \<in> set REQUIRED_REPORT_HEADINGS. headingPresent markdown h)
      \<and> (\<forall>h \<in> set REQUIRED_QUESTION_HEADINGS.
            \<exists>txt. sectionBody markdown h txt \<and> 120 \<le> length txt)
      \<and> (\<exists>txt. sectionBody markdown ''## 3. Related Work and Key Differences'' txt
             \<and> containsComparisonWord txt
             \<and> (containsBracketCitation txt \<or> containsUrlAnyCase txt))
      \<and> (\<exists>txt. sectionBody markdown ''## References'' txt \<and> containsUrl txt))"
    unfolding c a q r u ..
  from all a q r u m one show ?thesis by (intro conjI)
qed

text \<open>
  A report without its references section: that heading alone is missing, the report is
  not complete, the related-work section, which says \<^verbatim>\<open>In contrast to [3]\<close>, passes, and
  the question sections are too short.
\<close>

theorem report_complete_iff_all_checks_witness:
  "filter (\<lambda>h. \<not> headingPresent exampleReport h) REQUIRED_REPORT_HEADINGS = [''## References'']
   \<and> \<not> isComplete (validateReport exampleReport)
   \<and> (\<exists>txt. sectionBody exampleReport ''## 3. Related Work and Key Differences'' txt
         \<and> containsComparisonWord txt
         \<and> (containsBracketCitation txt \<or> containsUrlAnyCase txt))
   \<and> \<not> (\<exists>txt. sectionBody exampleReport ''## References'' txt \<and> containsUrl txt)
   \<and> \<not> (\<forall>h \<in> set REQUIRED_QUESTION_HEADINGS.
            \<exists>txt. sectionBody exampleReport h txt \<and> 120 \<le> length txt)"
proof -
  note E = report_complete_iff_all_checks[of exampleReport]
  have v: "missingHeadings (validateReport exampleReport) = [''## References'']"
      "\<not> isComplete (validateReport exampleReport)"
      "hasRelatedWorkComparison (validateReport exampleReport)"
      "\<not> hasReferenceUrls (validateReport exampleReport)"
      "\<not> answeredRequiredQuestions (validateReport exampleReport)"
    by (simp_all add: validate_exampleReport)
  have 1: "filter (\<lambda>h. \<not> headingPresent exampleReport h) REQUIRED_REPORT_HEADINGS = [''## References'']"
    using E[THEN conjunct2, THEN conjunct2, THEN conjunct2, THEN conjunct2, THEN conjunct2,
            THEN conjunct1] v(1) by simp
  have 3: "\<exists>txt. sectionBody exampleReport ''## 3. Related Work and Key Differences'' txt
         \<and> containsComparisonWord txt
         \<and> (containsBracketCitation txt \<or> containsUrlAnyCase txt)"
    using E[THEN conjunct2, THEN conjunct2, THEN conjunct2, THEN conjunct1] v(3) by simp
  have 4: "\<not> (\<exists>txt. sectionBody exampleReport ''## References'' txt \<and> containsUrl txt)"
    using E[THEN conjunct2, THEN conjunct2, THEN conjunct2, THEN conjunct2, THEN conjunct1] v(4)
    by simp
  have 5: "\<not> (\<forall>h \<in> set REQUIRED_QUESTION_HEADINGS.
            \<exists>txt. sectionBody exampleReport h txt \<and> 120 \<le> length txt)"
    using E[THEN conjunct2, THEN conjunct2, THEN conjunct1] v(5) by simp
  from 1 v(2) 3 4 5 show ?thesis by (intro conjI)
qed

section \<open>Properties of the web search tool\<close>

lemma execute_nonblank:
  assumes "trim (query params) \<noteq> []"
  shows "web_search_execute ss ax params =
     (let r = aggregate ss ax (trim (query params)) (effectiveLimit params) in
      if fst r = [] then
        Inl (''No search results available'' @
             (if snd r \<noteq> [] then '' ('' @ join ''; '' (snd r) @ '')'' else []) @ ''.'')
      else Inr \<lparr> d_query = trim (query params), d_results = fst r,
                 d_providerErrors = (if snd r \<noteq> [] then Some (snd r) else None) \<rparr>)"
  using assms
  by (simp add: web_search_execute_def effectiveLimit_def Let_def split: prod.splits)

lemma aggregate_primary_throws:
  assumes "1 \<le> limit'" and "ss q limit' = Inl m"
  shows "aggregate ss ax q limit' =
     (case ax q limit' of
        Inr rs \<Rightarrow> (slice0 (dedupeResults rs) limit', [''semantic-scholar: '' @ m])
      | Inl m' \<Rightarrow> ([], [''semantic-scholar: '' @ m, ''arxiv: '' @ m']))"
  using assms by (simp add: aggregate_def split: sum.splits)

lemma aggregate_secondary_throws:
  assumes "ss q limit' = Inr rs" and "int (length rs) < limit'" and "ax q limit' = Inl m"
  shows "aggregate ss ax q limit' = (rs, [''arxiv: '' @ m])"
  using assms by (simp add: aggregate_def)

lemma aggregate_primary_enough:
  assumes "ss q limit' = Inr rs" and "limit' \<le> int (length rs)"
  shows "aggregate ss ax q limit' = (rs, [])"
  using assms by (simp add: aggregate_def)

lemma dedupe_two:
  "ws_url a \<noteq> ws_url b \<Longrightarrow> slice0 (dedupeResults [a, b]) 5 = [a, b]"
  by (simp add: dedupeResults_def slice0_def)

text \<open>
  Claim C3, as amended. For a query that is not blank and a limit of at least one: the tool
  throws exactly when the final list of results is empty; what it returns is that list,
  with the recorded provider errors when there are any. When the first provider throws, its
  message is recorded under the label \<^verbatim>\<open>semantic-scholar\<close> and the second provider is still
  asked; when the second throws after the first returned fewer results than the limit, its
  message is recorded under the label \<^verbatim>\<open>arxiv\<close> and the results of the first are kept. When
  the first throws and the second returns two results with different URLs, for a limit of
  five, the tool returns those two results and the one error string of the first.
\<close>

theorem web_search_partial_failure:
  assumes "trim (query params) \<noteq> []" and "1 \<le> effectiveLimit params"
  shows "(isl (web_search_execute ss ax params)
            \<longleftrightarrow> fst (aggregate ss ax (trim (query params)) (effectiveLimit params)) = [])
     \<and> (\<forall>d. web_search_execute ss ax params = Inr d \<longrightarrow>
            d_results d = fst (aggregate ss ax (trim (query params)) (effectiveLimit params)) \<and>
            d_providerErrors d =
              (if snd (aggregate ss ax (trim (query params)) (effectiveLimit params)) = [] then None
               else Some (snd (aggregate ss ax (trim (query params)) (effectiveLimit params)))))
     \<and> (\<forall>m rs. ss (trim (query params)) (effectiveLimit params) = Inl m \<and>
                 ax (trim (query params)) (effectiveLimit params) = Inr rs \<longrightarrow>
            aggregate ss ax (trim (query params)) (effectiveLimit params)
              = (slice0 (dedupeResults rs) (effectiveLimit params), [''semantic-scholar: '' @ m]))
     \<and> (\<forall>m rs. ss (trim (query params)) (effectiveLimit params) = Inr rs \<and>
                 int (length rs) < effectiveLimit params \<and>
                 ax (trim (query params)) (effectiveLimit params) = Inl m \<longrightarrow>
            aggregate ss ax (trim (query params)) (effectiveLimit params) = (rs, [''arxiv: '' @ m]))
     \<and> (\<forall>m a b. ss (trim (query params)) (effectiveLimit params) = Inl m \<and>
                 ax (trim (query params)) (effectiveLimit params) = Inr [a, b] \<and>
                 ws_url a \<noteq> ws_url b \<and> effectiveLimit params = 5 \<longrightarrow>
            web_search_execute ss ax params =
              Inr \<lparr> d_query = trim (query params), d_results = [a, b],
                    d_providerErrors = Some [''semantic-scholar: '' @ m] \<rparr>)"
proof -
  let ?q = "trim (query params)" and ?l = "effectiveLimit params"
  note ex = execute_nonblank[OF assms(1), of ss ax]
  have 1: "isl (web_search_execute ss ax params) \<longleftrightarrow> fst (aggregate ss ax ?q ?l) = []"
    unfolding ex by (simp add: Let_def)
  have 2: "\<forall>d. web_search_execute ss ax params = Inr d \<longrightarrow>
            d_results d = fst (aggregate ss ax ?q ?l) \<and>
            d_providerErrors d =
              (if snd (aggregate ss ax ?q ?l) = [] then None
               else Some (snd (aggregate ss ax ?q ?l)))"
    unfolding ex by (auto simp: Let_def split: if_splits)
  have 3: "\<forall>m rs. ss ?q ?l = Inl m \<and> ax ?q ?l = Inr rs \<longrightarrow>
            aggregate ss ax ?q ?l = (slice0 (dedupeResults rs) ?l, [''semantic-scholar: '' @ m])"
    using aggregate_primary_throws[OF assms(2), of ss ?q _ ax] by simp
  have 4: "\<forall>m rs. ss ?q ?l = Inr rs \<and> int (length rs) < ?l \<and> ax ?q ?l = Inl m \<longrightarrow>
            aggregate ss ax ?q ?l = (rs, [''arxiv: '' @ m])"
    using aggregate_secondary_throws[of ss ?q ?l _ ax] by blast
  have 5: "\<forall>m a b. ss ?q ?l = Inl m \<and> ax ?q ?l = Inr [a, b] \<and> ws_url a \<noteq> ws_url b \<and> ?l = 5 \<longrightarrow>
            web_search_execute ss ax params =
              Inr \<lparr> d_query = ?q, d_results = [a, b],
                    d_providerErrors = Some [''semantic-scholar: '' @ m] \<rparr>"
  proof (intro allI impI)
    fix m a b
    assume h: "ss ?q ?l = Inl m \<and> ax ?q ?l = Inr [a, b] \<and> ws_url a \<noteq> ws_url b \<and> ?l = 5"
    then have "aggregate ss ax ?q ?l = (slice0 (dedupeResults [a, b]) ?l, [''semantic-scholar: '' @ m])"
      using 3 by blast
    moreover have "slice0 (dedupeResults [a, b]) ?l = [a, b]"
      using h dedupe_two[of a b] by simp
    ultimately have "aggregate ss ax ?q ?l = ([a, b], [''semantic-scholar: '' @ m])"
      by simp
    then show "web_search_execute ss ax params =
              Inr \<lparr> d_query = ?q, d_results = [a, b],
                    d_providerErrors = Some [''semantic-scholar: '' @ m] \<rparr>"
      unfolding ex by (simp add: Let_def)
  qed
  from 1 2 3 4 5 show ?thesis by blast
qed

theorem web_search_partial_failure_witness:
  "trim (query attentionQuery) \<noteq> [] \<and> 1 \<le> effectiveLimit attentionQuery
   \<and> web_search_execute primaryDown (\<lambda>q l. Inr [paperA, paperB]) attentionQuery =
       Inr \<lparr> d_query = ''attention'', d_results = [paperA, paperB],
             d_providerErrors = Some [''semantic-scholar: Semantic Scholar returned 429 Too Many Requests''] \<rparr>"
proof -
  have t: "trim (query attentionQuery) = ''attention''"
    by (simp add: attentionQuery_def trim_def is_space_def)
  have l: "effectiveLimit attentionQuery = 5"
    by (simp add: attentionQuery_def effectiveLimit_def)
  have h1: "trim (query attentionQuery) \<noteq> []" by (simp add: t)
  have h2: "1 \<le> effectiveLimit attentionQuery" by (simp add: l)
  have u: "ws_url paperA \<noteq> ws_url paperB" by (simp add: paperA_def paperB_def)
  note T = web_search_partial_failure[OF h1 h2, of primaryDown "\<lambda>q l. Inr [paperA, paperB]"]
  have "web_search_execute primaryDown (\<lambda>q l. Inr [paperA, paperB]) attentionQuery =
       Inr \<lparr> d_query = ''attention'', d_results = [paperA, paperB],
             d_providerErrors = Some [''semantic-scholar: Semantic Scholar returned 429 Too Many Requests''] \<rparr>"
    using T[THEN conjunct2, THEN conjunct2, THEN conjunct2, THEN conjunct2, rule_format,
            of "''Semantic Scholar returned 429 Too Many Requests''" paperA paperB] u
    by (simp add: t l primaryDown_def)
  with h1 h2 show ?thesis by blast
qed

text \<open>
  The claim as it was stated fails in two places. A query of one space passes the schema
  and makes the tool throw before any provider is asked, whatever the providers would
  return. And two results that share their URL are merged into one.
\<close>

theorem web_search_blank_query_and_duplicates:
  "web_search_execute (\<lambda>q l. Inr [paperA]) (\<lambda>q l. Inr [paperB]) blankQuery
      = Inl ''Query must not be empty.''
   \<and> fst (aggregate (\<lambda>q l. Inr [paperA]) (\<lambda>q l. Inr [paperB]) (trim (query blankQuery))
            (effectiveLimit blankQuery)) = [paperA, paperB]
   \<and> web_search_execute primaryDown (\<lambda>q l. Inr [paperA, paperA']) attentionQuery =
       Inr \<lparr> d_query = ''attention'', d_results = [paperA],
             d_providerErrors = Some [''semantic-scholar: Semantic Scholar returned 429 Too Many Requests''] \<rparr>
   \<and> paperA \<noteq> paperA'"
  by (simp add: web_search_execute_def aggregate_def blankQuery_def attentionQuery_def
        effectiveLimit_def primaryDown_def trim_def is_space_def dedupeResults_def slice0_def
        paperA_def paperB_def paperA'_def Let_def)

section \<open>Properties of the extraction tool\<close>

subsection \<open>Classification and the two routes\<close>

lemma endsWith_iff: "endsWith s p \<longleftrightarrow> (\<exists>a. s = a @ p)"
proof
  assume "endsWith s p"
  then have "s = take (length s - length p) s @ p"
    by (metis append_take_drop_id endsWith_def)
  then show "\<exists>a. s = a @ p" ..
next
  assume "\<exists>a. s = a @ p"
  then show "endsWith s p" by (auto simp: endsWith_def)
qed

lemma toLowerCase_pdf_suffix:
  assumes "endsWith p ''.pdf''"
  shows "endsWith (toLowerCase p) ''.pdf''"
proof -
  from assms obtain a where "p = a @ ''.pdf''" unfolding endsWith_iff ..
  then have "toLowerCase p = toLowerCase a @ ''.pdf''"
    by (simp add: toLowerCase_def lower_char_def)
  then show ?thesis unfolding endsWith_iff ..
qed

lemma classify_pdf:
  "\<not> endsWith (hostname u) ''arxiv.org'' \<Longrightarrow> endsWith (pathname u) ''.pdf''
     \<Longrightarrow> classifySourceType u ct = Pdf"
  using toLowerCase_pdf_suffix[of "pathname u"]
  by (simp add: classifySourceType_def Let_def)

lemma classify_arxiv:
  "endsWith (hostname u) ''arxiv.org'' \<Longrightarrow> classifySourceType u ct = Arxiv"
  by (simp add: classifySourceType_def Let_def)

lemma fetchReadableMirror_contentType:
  "fetchReadableMirror P (setContentType ct outcome) = fetchReadableMirror P outcome"
  by (cases outcome) (simp_all add: fetchReadableMirror_def setContentType_def)

lemma extractArxivSource_contentType:
  "extractArxivSource P i (setContentType c1 api) (setContentType c2 mirror)
     = extractArxivSource P i api mirror"
  by (cases api)
     (simp_all add: extractArxivSource_def setContentType_def[of c1] fetchReadableMirror_contentType
        Let_def split: option.splits)

lemma extractArxivSource_kind:
  "extractArxivSource P i api mirror = Inr d \<Longrightarrow>
     sourceType d = Arxiv \<and> canonicalUrl d = ''https://arxiv.org/abs/'' @ i"
  by (auto simp: extractArxivSource_def withMissingFields_def Let_def
           split: FetchOutcome.splits if_splits option.splits)

lemma execute_arxiv_route:
  assumes "trim (url_input params) \<noteq> []" and "parseUrl P (trim (url_input params)) = Some v"
    and "parseArxivId v = Some i"
  shows "extract_source_execute P params net
           = extractArxivSource P i (firstFetch net) (arxivMirror net)"
  using assms parseArxivId_nonempty[OF assms(3)]
  by (simp add: extract_source_execute_def Let_def)

lemma execute_generic_route:
  assumes "trim (url_input params) \<noteq> []" and "parseUrl P (trim (url_input params)) = Some v"
    and "parseArxivId v = None"
  shows "extract_source_execute P params net
           = extractGenericSource P (firstFetch net) (pdfMirror net) (fallbackMirror net)"
  using assms by (simp add: extract_source_execute_def Let_def)

text \<open>
  Claim C7, as amended. A URL whose path ends in \<^verbatim>\<open>.pdf\<close> and whose host does not end in
  \<^verbatim>\<open>arxiv.org\<close> is classified as pdf, and a URL whose host ends in \<^verbatim>\<open>arxiv.org\<close> is classified
  as arxiv, whatever the path and the content type. A URL that \<^verbatim>\<open>parseArxivId\<close> gives an
  identifier (its host then ends in \<^verbatim>\<open>arxiv.org\<close>) is extracted by \<^verbatim>\<open>extractArxivSource\<close>;
  the result of that function does not change when the content types of the responses it
  gets are changed, and a result it returns has the source type arxiv and the canonical URL
  \<^verbatim>\<open>https://arxiv.org/abs/\<close> followed by the identifier.
\<close>

theorem classification_and_arxiv_route:
  "(\<not> endsWith (hostname u) ''arxiv.org'' \<and> endsWith (pathname u) ''.pdf''
       \<longrightarrow> classifySourceType u ct = Pdf)
   \<and> (endsWith (hostname u) ''arxiv.org'' \<longrightarrow> classifySourceType u ct = Arxiv)
   \<and> (trim (url_input params) \<noteq> [] \<and> parseUrl P (trim (url_input params)) = Some v \<and>
       parseArxivId v = Some i
       \<longrightarrow> endsWith (hostname v) ''arxiv.org'' \<and>
           extract_source_execute P params net
             = extractArxivSource P i (firstFetch net) (arxivMirror net))
   \<and> extractArxivSource P i (setContentType c1 api) (setContentType c2 mirror)
       = extractArxivSource P i api mirror
   \<and> (\<forall>d. extractArxivSource P i api mirror = Inr d
        \<longrightarrow> sourceType d = Arxiv \<and> canonicalUrl d = ''https://arxiv.org/abs/'' @ i)"
proof -
  have h: "endsWith (hostname v) ''arxiv.org''" if "parseArxivId v = Some i"
    using that by (simp add: parseArxivId_def split: if_splits)
  show ?thesis
    using classify_pdf[of u ct] classify_arxiv[of u ct] h
      execute_arxiv_route[of params P v i net]
      extractArxivSource_contentType[of P i c1 api c2 mirror]
      extractArxivSource_kind[of P i api mirror]
    by blast
qed

theorem classification_and_arxiv_route_witness:
  "classifySourceType paperPdfUrl (Some ''text/html'') = Pdf
   \<and> classifySourceType attentionUrl (Some ''application/pdf'') = Arxiv
   \<and> extract_source_execute testPlatform \<lparr> url_input = ''https://arxiv.org/abs/1706.03762'' \<rparr> apiDown
       = extractArxivSource testPlatform ''1706.03762'' (firstFetch apiDown) (arxivMirror apiDown)
   \<and> extractArxivSource testPlatform ''1706.03762'' (firstFetch apiDown) (arxivMirror apiDown)
       = Inl (ArxivFailed 404 ''Not Found'')"
proof -
  have 1: "\<not> endsWith (hostname paperPdfUrl) ''arxiv.org'' \<and> endsWith (pathname paperPdfUrl) ''.pdf''"
    by (simp add: paperPdfUrl_def endsWith_def)
  have 2: "endsWith (hostname attentionUrl) ''arxiv.org''"
    by (simp add: attentionUrl_def endsWith_def)
  have 3: "trim (url_input \<lparr> url_input = ''https://arxiv.org/abs/1706.03762'' \<rparr>) \<noteq> [] \<and>
           parseUrl testPlatform (trim (url_input \<lparr> url_input = ''https://arxiv.org/abs/1706.03762'' \<rparr>))
             = Some attentionUrl \<and>
           parseArxivId attentionUrl = Some ''1706.03762''"
    by (simp add: trim_def is_space_def testPlatform_def knownUrls_def attentionUrl_def
          parseArxivId_def endsWith_def absMatch_def startsWith_def is_id_char_def)
  have a: "classifySourceType paperPdfUrl (Some ''text/html'') = Pdf"
    using classification_and_arxiv_route[of paperPdfUrl "Some ''text/html''"] 1 by blast
  have b: "classifySourceType attentionUrl (Some ''application/pdf'') = Arxiv"
    using classification_and_arxiv_route[of attentionUrl "Some ''application/pdf''"] 2 by blast
  have c: "extract_source_execute testPlatform \<lparr> url_input = ''https://arxiv.org/abs/1706.03762'' \<rparr> apiDown
       = extractArxivSource testPlatform ''1706.03762'' (firstFetch apiDown) (arxivMirror apiDown)"
    using classification_and_arxiv_route[of _ _ "\<lparr> url_input = ''https://arxiv.org/abs/1706.03762'' \<rparr>"
            testPlatform attentionUrl "''1706.03762''" apiDown] 3
    by blast
  have d: "extractArxivSource testPlatform ''1706.03762'' (firstFetch apiDown) (arxivMirror apiDown)
       = Inl (ArxivFailed 404 ''Not Found'')"
    by (simp add: extractArxivSource_def apiDown_def notFound_def)
  from a b c d show ?thesis by blast
qed

text \<open>
  The claim as it was stated sends every URL of the host to the record API. A URL of the
  host without an identifier in its path, such as a listing, is fetched directly instead:
  when that fetch is answered with 404 the error is the one of the direct fetch, and when
  it is answered with a page the result carries the URL of the page.
\<close>

theorem arxiv_listing_is_fetched_directly:
  "parseUrl testPlatform (trim ''https://arxiv.org/list/cs.CL/recent'') = Some listingUrl
   \<and> endsWith (hostname listingUrl) ''arxiv.org''
   \<and> parseArxivId listingUrl = None
   \<and> extract_source_execute testPlatform \<lparr> url_input = ''https://arxiv.org/list/cs.CL/recent'' \<rparr>
         listingNotFound = Inl (SourceFailed 404 ''Not Found'')
   \<and> extract_source_execute testPlatform \<lparr> url_input = ''https://arxiv.org/list/cs.CL/recent'' \<rparr>
         listingPage =
       Inr \<lparr> e_title = ''recent'', authors = None, year = None, abstract = None, fullText = None,
             sourceType = Arxiv, canonicalUrl = ''https://arxiv.org/list/cs.CL/recent'',
             missingFields = [''authors'', ''year'', ''abstract'', ''fullText''] \<rparr>"
  by code_simp

subsection \<open>The readability mirror\<close>

lemma clipText_cases:
  "clipText P t m = (if length t \<le> m then t else take (m - 1) t @ ellipsis P)"
  by (simp add: clipText_def)

lemma clipText_nonempty:
  assumes "t \<noteq> []" and "2 \<le> m"
  shows "clipText P t m \<noteq> []"
proof (cases "length t \<le> m")
  case True
  then show ?thesis using assms by (simp add: clipText_def)
next
  case False
  have "take (m - 1) t \<noteq> []" using assms by (cases t) (auto simp: take_Cons')
  then show ?thesis using False by (simp add: clipText_def)
qed

lemma fetchReadableMirror_None_iff: "fetchReadableMirror P outcome = None \<longleftrightarrow> mirrorFails outcome"
  by (cases outcome)
     (auto simp: fetchReadableMirror_def mirrorFails_def Let_def split: option.splits)

lemma fetchReadableMirror_Some_nonempty:
  assumes "fetchReadableMirror P outcome = Some t"
  shows "t \<noteq> []"
proof -
  from assms obtain r b where "outcome = Resolved r" "body r = Some b"
      "normalizeWhitespace b \<noteq> []" "t = clipText P (normalizeWhitespace b) MAX_FULL_TEXT_CHARS"
    by (cases outcome)
       (auto simp: fetchReadableMirror_def Let_def split: option.splits if_splits)
  then show ?thesis
    using clipText_nonempty[of "normalizeWhitespace b" MAX_FULL_TEXT_CHARS P]
    by (simp add: MAX_FULL_TEXT_CHARS_def)
qed

lemma truthyStr_mirror: "truthyStr (fetchReadableMirror P outcome) \<longleftrightarrow> \<not> mirrorFails outcome"
proof (cases "fetchReadableMirror P outcome")
  case None
  then show ?thesis using fetchReadableMirror_None_iff[of P outcome] by (simp add: truthyStr_def)
next
  case (Some t)
  then show ?thesis
    using fetchReadableMirror_None_iff[of P outcome] fetchReadableMirror_Some_nonempty[OF Some]
    by (simp add: truthyStr_def)
qed

lemma missing_fullText: "''fullText'' \<in> set (getMissingFields d) \<longleftrightarrow> \<not> truthyStr (fullText d)"
  by (simp add: getMissingFields_def)

lemma missing_abstract: "''abstract'' \<in> set (getMissingFields d) \<longleftrightarrow> \<not> truthyStr (abstract d)"
  by (simp add: getMissingFields_def)

lemma withMissingFields_simps:
  "fullText (withMissingFields d) = fullText d"
  "abstract (withMissingFields d) = abstract d"
  "sourceType (withMissingFields d) = sourceType d"
  "canonicalUrl (withMissingFields d) = canonicalUrl d"
  "missingFields (withMissingFields d) = getMissingFields d"
  "getMissingFields (withMissingFields d) = getMissingFields d"
  by (simp_all add: withMissingFields_def getMissingFields_def)

lemma isl_case_sum: "isl (case x of Inl e \<Rightarrow> Inl e | Inr f \<Rightarrow> Inr (g f)) = isl x"
  by (cases x) simp_all

lemma finishGeneric_fields:
  "sourceType (finishGeneric P f st u m2) = st"
  "canonicalUrl (finishGeneric P f st u m2) = u"
  "fullText (finishGeneric P f st u m2)
     = (if \<not> truthyStr (f_fullText f) then fetchReadableMirror P m2 else f_fullText f)"
  "abstract (finishGeneric P f st u m2)
     = (if \<not> truthyStr (f_abstract f) \<and> truthyStr (f_fullText f)
        then Some (clipText P (case f_fullText f of Some t \<Rightarrow> t | None \<Rightarrow> []) MAX_ABSTRACT_CHARS)
        else f_abstract f)"
  "missingFields (finishGeneric P f st u m2) = getMissingFields (finishGeneric P f st u m2)"
  by (simp_all add: finishGeneric_def withMissingFields_def getMissingFields_def Let_def)

lemma generic_result:
  "extractGenericSource P page m1 m2 = Inr d \<longleftrightarrow>
     (\<exists>r canonical title0 f. page = Resolved r \<and> ok r \<and>
        parseUrl P (resp_url r) = Some canonical \<and>
        guessTitleFromUrl P canonical = Inr title0 \<and>
        primaryFields P (classifySourceType canonical (contentType r)) title0 r m1 = Inr f \<and>
        d = finishGeneric P f (classifySourceType canonical (contentType r)) (resp_url r) m2)"
  by (cases page)
     (auto simp: extractGenericSource_def Let_def split: option.splits sum.splits if_splits)

lemma primaryFields_isl:
  "isl (primaryFields P st title0 r m1) = isl (primaryFields P st title0 r m1')"
  by (simp add: primaryFields_def split: option.splits)

lemma generic_isl:
  "isl (extractGenericSource P page m1 m2) = isl (extractGenericSource P page m1' m2')"
proof (cases page)
  case (Rejected e)
  then show ?thesis by (simp add: extractGenericSource_def)
next
  case (Resolved r)
  show ?thesis
  proof (cases "ok r")
    case False
    then show ?thesis using Resolved by (simp add: extractGenericSource_def)
  next
    case True
    show ?thesis
    proof (cases "parseUrl P (resp_url r)")
      case None
      then show ?thesis using Resolved True by (simp add: extractGenericSource_def)
    next
      case (Some canonical)
      show ?thesis
      proof (cases "guessTitleFromUrl P canonical")
        case (Inl e)
        then show ?thesis using Resolved True Some by (simp add: extractGenericSource_def)
      next
        case (Inr title0)
        then show ?thesis
          using Resolved True Some
            primaryFields_isl[of P "classifySourceType canonical (contentType r)" title0 r m1 m1']
          by (simp add: extractGenericSource_def Let_def isl_case_sum)
      qed
    qed
  qed
qed

lemma arxiv_isl:
  "isl (extractArxivSource P i api m) = isl (extractArxivSource P i api m')"
  by (cases api) (simp_all add: extractArxivSource_def Let_def split: option.splits)

lemma arxiv_fullText:
  assumes "extractArxivSource P i api m = Inr d"
  shows "fullText d = fetchReadableMirror P m \<and> missingFields d = getMissingFields d"
proof -
  from assms obtain d0 where "d = withMissingFields d0" "fullText d0 = fetchReadableMirror P m"
    by (auto simp: extractArxivSource_def Let_def
             split: FetchOutcome.splits if_splits option.splits)
  then show ?thesis by (simp add: withMissingFields_simps)
qed

lemma primary_fullText_pdf:
  "primaryFields P Pdf title0 r m1 = Inr f \<Longrightarrow>
     f_fullText f = fetchReadableMirror P m1 \<and> f_abstract f = None"
  by (auto simp: primaryFields_def)

lemma primary_fullText_arxiv:
  "primaryFields P Arxiv title0 r m1 = Inr f \<Longrightarrow> f_fullText f = None \<and> f_abstract f = None"
  by (auto simp: primaryFields_def)

lemma primary_fullText_html:
  assumes "st = Html \<or> st = Other" and "primaryFields P st title0 r m1 = Inr f"
  shows "\<exists>html. body r = Some html \<and> f = htmlFields P title0 html"
  using assms by (auto simp: primaryFields_def split: option.splits)

lemma htmlFields_fullText:
  "f_fullText (htmlFields P title0 html)
     = (if stripHtmlToText P html \<noteq> []
        then Some (clipText P (stripHtmlToText P html) MAX_FULL_TEXT_CHARS) else None)"
  by (simp add: htmlFields_def Let_def)

lemma htmlFields_abstract_truthy:
  "truthyStr (f_abstract (htmlFields P title0 html)) = truthyStr (metaAbstract P html)"
proof (cases "metaAbstract P html")
  case None
  then show ?thesis by (simp add: htmlFields_def Let_def)
next
  case (Some a)
  then show ?thesis
    using clipText_nonempty[of a MAX_ABSTRACT_CHARS P]
    by (simp add: htmlFields_def Let_def truthyStr_def MAX_ABSTRACT_CHARS_def)
qed

lemma finish_truthy:
  "truthyStr (fullText (finishGeneric P f st u m2))
     \<longleftrightarrow> truthyStr (f_fullText f) \<or> \<not> mirrorFails m2"
  "truthyStr (abstract (finishGeneric P f st u m2))
     \<longleftrightarrow> truthyStr (f_abstract f) \<or> truthyStr (f_fullText f)"
proof -
  show "truthyStr (fullText (finishGeneric P f st u m2))
     \<longleftrightarrow> truthyStr (f_fullText f) \<or> \<not> mirrorFails m2"
    by (simp add: finishGeneric_fields truthyStr_mirror)
  have "truthyStr (Some (clipText P t MAX_ABSTRACT_CHARS))" if "t \<noteq> []" for t
    using clipText_nonempty[OF that, of MAX_ABSTRACT_CHARS P]
    by (simp add: truthyStr_def MAX_ABSTRACT_CHARS_def)
  then show "truthyStr (abstract (finishGeneric P f st u m2))
     \<longleftrightarrow> truthyStr (f_abstract f) \<or> truthyStr (f_fullText f)"
    by (cases "f_fullText f") (auto simp: finishGeneric_fields truthyStr_def)
qed

lemma finish_missing:
  "''fullText'' \<in> set (missingFields (finishGeneric P f st u m2))
     \<longleftrightarrow> \<not> truthyStr (f_fullText f) \<and> mirrorFails m2"
  "''abstract'' \<in> set (missingFields (finishGeneric P f st u m2))
     \<longleftrightarrow> \<not> truthyStr (f_abstract f) \<and> \<not> truthyStr (f_fullText f)"
  unfolding finishGeneric_fields(5) missing_fullText missing_abstract finish_truthy by auto

lemma falsy_fullText_None:
  "\<not> truthyStr (f_fullText f) \<Longrightarrow> mirrorFails m2 \<Longrightarrow> fullText (finishGeneric P f st u m2) = None"
  using fetchReadableMirror_None_iff[of P m2] by (simp add: finishGeneric_fields)

text \<open>
  Claim C8, as amended. A fetch of the readability mirror gives no text exactly when it
  fails. Whether an extraction throws does not depend on the outcomes of its mirror
  fetches. When an extraction that returns had to ask the mirror for the full text and
  every mirror fetch it made failed, the full text is absent and \<^verbatim>\<open>fullText\<close> is listed as
  missing: for a pdf (two fetches, the second made when the first gave no text), for an
  html or other source whose stripped text is empty, for a source classified arxiv on the
  direct route, and on the route of the record API.
\<close>

theorem readability_mirror_soft_fail:
  "(mirrorFails outcome \<longleftrightarrow> fetchReadableMirror P outcome = None)
   \<and> isl (extractGenericSource P page m1 m2) = isl (extractGenericSource P page m1' m2')
   \<and> isl (extractArxivSource P i api m) = isl (extractArxivSource P i api m')
   \<and> (\<forall>d. extractGenericSource P page m1 m2 = Inr d \<and> sourceType d = Pdf \<and>
            mirrorFails m1 \<and> mirrorFails m2
        \<longrightarrow> fullText d = None \<and> ''fullText'' \<in> set (missingFields d))
   \<and> (\<forall>d r html. extractGenericSource P page m1 m2 = Inr d \<and>
            (sourceType d = Html \<or> sourceType d = Other) \<and>
            page = Resolved r \<and> body r = Some html \<and> stripHtmlToText P html = [] \<and>
            mirrorFails m2
        \<longrightarrow> fullText d = None \<and> ''fullText'' \<in> set (missingFields d))
   \<and> (\<forall>d. extractGenericSource P page m1 m2 = Inr d \<and> sourceType d = Arxiv \<and> mirrorFails m2
        \<longrightarrow> fullText d = None \<and> ''fullText'' \<in> set (missingFields d))
   \<and> (\<forall>d. extractArxivSource P i api m = Inr d \<and> mirrorFails m
        \<longrightarrow> fullText d = None \<and> ''fullText'' \<in> set (missingFields d))"
proof -
  have 1: "mirrorFails outcome \<longleftrightarrow> fetchReadableMirror P outcome = None"
    by (simp add: fetchReadableMirror_None_iff)
  have 2: "isl (extractGenericSource P page m1 m2) = isl (extractGenericSource P page m1' m2')"
    by (rule generic_isl)
  have 3: "isl (extractArxivSource P i api m) = isl (extractArxivSource P i api m')"
    by (rule arxiv_isl)
  have absent: "fullText d = None \<and> ''fullText'' \<in> set (missingFields d)"
    if "d = finishGeneric P f st u m2" "\<not> truthyStr (f_fullText f)" "mirrorFails m2" for d f st u
    using that falsy_fullText_None[of f m2 P st u] finish_missing(1)[of P f st u m2] by simp
  have 4: "fullText d = None \<and> ''fullText'' \<in> set (missingFields d)"
    if h: "extractGenericSource P page m1 m2 = Inr d" "sourceType d = Pdf"
          "mirrorFails m1" "mirrorFails m2" for d
  proof -
    from h(1) obtain r canonical title0 f where
        f: "primaryFields P (classifySourceType canonical (contentType r)) title0 r m1 = Inr f"
        and d: "d = finishGeneric P f (classifySourceType canonical (contentType r)) (resp_url r) m2"
      unfolding generic_result by blast
    have "classifySourceType canonical (contentType r) = Pdf"
      using h(2) d by (simp add: finishGeneric_fields)
    then have "f_fullText f = fetchReadableMirror P m1"
      using f primary_fullText_pdf by simp
    then have "\<not> truthyStr (f_fullText f)"
      using h(3) by (simp add: truthyStr_mirror)
    then show ?thesis using absent[OF d] h(4) by simp
  qed
  have 5: "fullText d = None \<and> ''fullText'' \<in> set (missingFields d)"
    if h: "extractGenericSource P page m1 m2 = Inr d" "sourceType d = Html \<or> sourceType d = Other"
          "page = Resolved r" "body r = Some html" "stripHtmlToText P html = []" "mirrorFails m2"
    for d r html
  proof -
    from h(1) obtain r' canonical title0 f where p: "page = Resolved r'" and
        f: "primaryFields P (classifySourceType canonical (contentType r')) title0 r' m1 = Inr f"
        and d: "d = finishGeneric P f (classifySourceType canonical (contentType r')) (resp_url r') m2"
      unfolding generic_result by blast
    have r: "r' = r" using p h(3) by simp
    have st: "classifySourceType canonical (contentType r) = Html \<or>
              classifySourceType canonical (contentType r) = Other"
      using h(2) d r by (simp add: finishGeneric_fields)
    from primary_fullText_html[OF st f[unfolded r]] h(4)
    have "f = htmlFields P title0 html" by simp
    then have "\<not> truthyStr (f_fullText f)"
      using h(5) by (simp add: htmlFields_fullText truthyStr_def)
    then show ?thesis using absent[OF d] h(6) by simp
  qed
  have 6: "fullText d = None \<and> ''fullText'' \<in> set (missingFields d)"
    if h: "extractGenericSource P page m1 m2 = Inr d" "sourceType d = Arxiv" "mirrorFails m2" for d
  proof -
    from h(1) obtain r canonical title0 f where
        f: "primaryFields P (classifySourceType canonical (contentType r)) title0 r m1 = Inr f"
        and d: "d = finishGeneric P f (classifySourceType canonical (contentType r)) (resp_url r) m2"
      unfolding generic_result by blast
    have "classifySourceType canonical (contentType r) = Arxiv"
      using h(2) d by (simp add: finishGeneric_fields)
    then have "f_fullText f = None"
      using f primary_fullText_arxiv by simp
    then have "\<not> truthyStr (f_fullText f)" by (simp add: truthyStr_def)
    then show ?thesis using absent[OF d] h(3) by simp
  qed
  have 7: "fullText d = None \<and> ''fullText'' \<in> set (missingFields d)"
    if h: "extractArxivSource P i api m = Inr d" "mirrorFails m" for d
  proof -
    from arxiv_fullText[OF h(1)]
    have a: "fullText d = fetchReadableMirror P m" "missingFields d = getMissingFields d" by simp_all
    have "fullText d = None" using a(1) h(2) by (simp add: fetchReadableMirror_None_iff)
    then show ?thesis using a(2) by (simp add: missing_fullText truthyStr_def)
  qed
  from 1 2 3 4 5 6 7 show ?thesis by blast
qed

subsection \<open>The examples, evaluated\<close>

lemma normalize_examples:
  "normalizeWhitespace ''Title  of the   paper'' = ''Title of the paper''"
  "normalizeWhitespace ''Rendered text'' = ''Rendered text''"
  "normalizeWhitespace [] = []"
  by (simp_all add: normalizeWhitespace_def trim_def is_space_def)

lemma mirror_examples:
  "fetchReadableMirror testPlatform (okResponse u ct ''Title  of the   paper'') = Some ''Title of the paper''"
  "fetchReadableMirror testPlatform (okResponse u ct ''Rendered text'') = Some ''Rendered text''"
  "fetchReadableMirror testPlatform (notFound u) = None"
  "fetchReadableMirror testPlatform (Rejected e) = None"
  by (simp_all add: fetchReadableMirror_def okResponse_def notFound_def normalize_examples
        clipText_def MAX_FULL_TEXT_CHARS_def Let_def)

lemma parse_examples:
  "parseUrl testPlatform ''https://example.org/paper.pdf'' = Some paperPdfUrl"
  "parseUrl testPlatform ''https://example.org/empty''
     = Some \<lparr> hostname = ''example.org'', pathname = ''/empty'', href = ''https://example.org/empty'' \<rparr>"
  by (simp_all add: testPlatform_def knownUrls_def paperPdfUrl_def)

lemma title_examples:
  "guessTitleFromUrl testPlatform paperPdfUrl = Inr ''paper.pdf''"
  "guessTitleFromUrl testPlatform
     \<lparr> hostname = ''example.org'', pathname = ''/empty'', href = ''https://example.org/empty'' \<rparr>
     = Inr ''empty''"
  by (simp_all add: guessTitleFromUrl_def testPlatform_def paperPdfUrl_def)

lemma classify_examples:
  "classifySourceType paperPdfUrl ct = Pdf"
  "classifySourceType
     \<lparr> hostname = ''example.org'', pathname = ''/empty'', href = ''https://example.org/empty'' \<rparr>
     (Some ''text/html'') = Html"
  by (simp_all add: classifySourceType_def paperPdfUrl_def endsWith_def toLowerCase_def
        lower_char_def includesStr_def startsWith_def Let_def)

lemma extract_paper_pdf:
  "extractGenericSource testPlatform (okResponse ''https://example.org/paper.pdf'' ct b) m1 m2
     = Inr (finishGeneric testPlatform
              \<lparr> f_title = ''paper.pdf'', f_authors = None, f_year = None, f_abstract = None,
                f_fullText = fetchReadableMirror testPlatform m1 \<rparr>
              Pdf ''https://example.org/paper.pdf'' m2)"
  by (simp add: extractGenericSource_def okResponse_def parse_examples title_examples
        classify_examples primaryFields_def Let_def)

lemma htmlFields_empty:
  "htmlFields testPlatform t [] =
     \<lparr> f_title = t, f_authors = None, f_year = None, f_abstract = None, f_fullText = None \<rparr>"
  by (simp add: htmlFields_def extractHtmlTitle_def extractMetaContent_def extractMetaValues_def
        parseYear_def metaAbstract_def stripHtmlToText_def decodeEntities_def normalize_examples
        orStr_def orNum_def truthyStr_def truthyNum_def testPlatform_def Let_def)

lemma extract_empty_page:
  "extractGenericSource testPlatform (okResponse ''https://example.org/empty'' (Some ''text/html'') []) m1 m2
     = Inr (finishGeneric testPlatform
              \<lparr> f_title = ''empty'', f_authors = None, f_year = None, f_abstract = None,
                f_fullText = None \<rparr>
              Html ''https://example.org/empty'' m2)"
  by (simp add: extractGenericSource_def okResponse_def parse_examples title_examples
        classify_examples primaryFields_def htmlFields_empty Let_def)

lemma finish_examples:
  "finishGeneric testPlatform
     \<lparr> f_title = t, f_authors = None, f_year = None, f_abstract = None, f_fullText = None \<rparr> st u m2
   = \<lparr> e_title = t, authors = None, year = None, abstract = None,
       fullText = fetchReadableMirror testPlatform m2, sourceType = st, canonicalUrl = u,
       missingFields = [''authors'', ''year'', ''abstract''] @
          (if truthyStr (fetchReadableMirror testPlatform m2) then [] else [''fullText'']) \<rparr>"
  by (simp add: finishGeneric_def withMissingFields_def getMissingFields_def truthyStr_def
        truthyNum_def Let_def)

lemma finish_with_text:
  "finishGeneric testPlatform
     \<lparr> f_title = t, f_authors = None, f_year = None, f_abstract = None,
       f_fullText = Some ''Title of the paper'' \<rparr> st u m2
   = \<lparr> e_title = t, authors = None, year = None, abstract = Some ''Title of the paper'',
       fullText = Some ''Title of the paper'', sourceType = st, canonicalUrl = u,
       missingFields = [''authors'', ''year''] \<rparr>"
  by (simp add: finishGeneric_def withMissingFields_def getMissingFields_def truthyStr_def
        truthyNum_def clipText_def MAX_ABSTRACT_CHARS_def Let_def)

text \<open>A pdf whose two mirror fetches fail: the extraction returns, without full text.\<close>

theorem readability_mirror_soft_fail_witness:
  "mirrorFails (pdfMirror pdfMirrorDown) \<and> mirrorFails (fallbackMirror pdfMirrorDown)
   \<and> extractGenericSource testPlatform (firstFetch pdfMirrorDown) (pdfMirror pdfMirrorDown)
         (fallbackMirror pdfMirrorDown)
       = Inr \<lparr> e_title = ''paper.pdf'', authors = None, year = None, abstract = None,
               fullText = None, sourceType = Pdf, canonicalUrl = ''https://example.org/paper.pdf'',
               missingFields = [''authors'', ''year'', ''abstract'', ''fullText''] \<rparr>
   \<and> fetchReadableMirror testPlatform (pdfMirror pdfMirrorDown) = None
   \<and> \<not> isl (extractGenericSource testPlatform (firstFetch pdfMirrorDown) unusedFetch unusedFetch)"
proof -
  have f: "mirrorFails (pdfMirror pdfMirrorDown)" "mirrorFails (fallbackMirror pdfMirrorDown)"
    by (simp_all add: mirrorFails_def pdfMirrorDown_def pdfThenRetry_def notFound_def)
  have e: "extractGenericSource testPlatform (firstFetch pdfMirrorDown) (pdfMirror pdfMirrorDown)
         (fallbackMirror pdfMirrorDown)
       = Inr \<lparr> e_title = ''paper.pdf'', authors = None, year = None, abstract = None,
               fullText = None, sourceType = Pdf, canonicalUrl = ''https://example.org/paper.pdf'',
               missingFields = [''authors'', ''year'', ''abstract'', ''fullText''] \<rparr>"
    by (simp add: pdfMirrorDown_def pdfThenRetry_def extract_paper_pdf mirror_examples
          finish_examples truthyStr_def)
  note T = readability_mirror_soft_fail[of "pdfMirror pdfMirrorDown" testPlatform
             "firstFetch pdfMirrorDown" "pdfMirror pdfMirrorDown" "fallbackMirror pdfMirrorDown"
             unusedFetch unusedFetch]
  have n: "fetchReadableMirror testPlatform (pdfMirror pdfMirrorDown) = None"
    using T f(1) by blast
  have "isl (extractGenericSource testPlatform (firstFetch pdfMirrorDown) (pdfMirror pdfMirrorDown)
              (fallbackMirror pdfMirrorDown))
        = isl (extractGenericSource testPlatform (firstFetch pdfMirrorDown) unusedFetch unusedFetch)"
    using T by blast
  then have i: "\<not> isl (extractGenericSource testPlatform (firstFetch pdfMirrorDown) unusedFetch unusedFetch)"
    unfolding e by simp
  from f e n i show ?thesis by blast
qed

text \<open>
  The claim as it was stated: any failure of the mirror fetch leaves the full text absent.
  For a pdf the mirror is asked a second time when the first fetch gave no text. Here the
  first fetch fails with status 404 and the second succeeds: the full text is there and
  \<^verbatim>\<open>fullText\<close> is not listed as missing.
\<close>

theorem failed_mirror_fetch_then_full_text:
  "mirrorFails (pdfMirror pdfMirrorRecovers)
   \<and> extractGenericSource testPlatform (firstFetch pdfMirrorRecovers) (pdfMirror pdfMirrorRecovers)
         (fallbackMirror pdfMirrorRecovers)
       = Inr \<lparr> e_title = ''paper.pdf'', authors = None, year = None, abstract = None,
               fullText = Some ''Title of the paper'', sourceType = Pdf,
               canonicalUrl = ''https://example.org/paper.pdf'',
               missingFields = [''authors'', ''year'', ''abstract''] \<rparr>"
proof -
  have f: "mirrorFails (pdfMirror pdfMirrorRecovers)"
    by (simp add: pdfMirrorRecovers_def mirrorFails_def notFound_def)
  have e: "extractGenericSource testPlatform (firstFetch pdfMirrorRecovers) (pdfMirror pdfMirrorRecovers)
         (fallbackMirror pdfMirrorRecovers)
       = Inr \<lparr> e_title = ''paper.pdf'', authors = None, year = None, abstract = None,
               fullText = Some ''Title of the paper'', sourceType = Pdf,
               canonicalUrl = ''https://example.org/paper.pdf'',
               missingFields = [''authors'', ''year'', ''abstract''] \<rparr>"
    by (simp add: pdfMirrorRecovers_def pdfThenRetry_def extract_paper_pdf mirror_examples
          finish_examples truthyStr_def)
  from f e show ?thesis by blast
qed

subsection \<open>The abstract taken from the full text\<close>

text \<open>
  Claim C10, as amended. In a result of the direct route: for a pdf whose first mirror
  fetch gave a text, the full text is that text and the abstract is its clipped form; for
  an html or other source without an abstract in its meta fields and with a stripped text
  that is not empty, the full text is the clipped stripped text and the abstract the
  clipped form of that. Clipping to 1500 leaves a text of at most 1500 characters as it is
  and otherwise keeps 1499 characters, followed by the ellipsis. When the last mirror fetch
  fails, \<^verbatim>\<open>abstract\<close> is missing only if \<^verbatim>\<open>fullText\<close> is missing too; and \<^verbatim>\<open>abstract\<close> is
  missing without \<^verbatim>\<open>fullText\<close> only when the full text is the one that the last mirror
  fetch supplied.
\<close>

theorem abstract_from_primary_full_text:
  assumes "extractGenericSource P page m1 m2 = Inr d"
  shows "(\<forall>t. sourceType d = Pdf \<and> fetchReadableMirror P m1 = Some t
            \<longrightarrow> abstract d = Some (clipText P t MAX_ABSTRACT_CHARS) \<and> fullText d = Some t)
     \<and> (\<forall>r html. (sourceType d = Html \<or> sourceType d = Other) \<and> page = Resolved r \<and>
            body r = Some html \<and> \<not> truthyStr (metaAbstract P html) \<and>
            stripHtmlToText P html \<noteq> []
         \<longrightarrow> fullText d = Some (clipText P (stripHtmlToText P html) MAX_FULL_TEXT_CHARS) \<and>
             abstract d = Some (clipText P (clipText P (stripHtmlToText P html) MAX_FULL_TEXT_CHARS)
                                  MAX_ABSTRACT_CHARS))
     \<and> (\<forall>t. clipText P t MAX_ABSTRACT_CHARS
              = (if length t \<le> 1500 then t else take 1499 t @ ellipsis P))
     \<and> (mirrorFails m2 \<longrightarrow> ''abstract'' \<in> set (missingFields d)
           \<longrightarrow> ''fullText'' \<in> set (missingFields d))
     \<and> (''abstract'' \<in> set (missingFields d) \<and> ''fullText'' \<notin> set (missingFields d)
           \<longrightarrow> \<not> mirrorFails m2 \<and> fullText d = fetchReadableMirror P m2)"
proof -
  from assms obtain r0 canonical title0 f where p: "page = Resolved r0" and
      f: "primaryFields P (classifySourceType canonical (contentType r0)) title0 r0 m1 = Inr f"
      and d: "d = finishGeneric P f (classifySourceType canonical (contentType r0)) (resp_url r0) m2"
    unfolding generic_result by blast
  let ?st = "classifySourceType canonical (contentType r0)"
  have st: "sourceType d = ?st" using d by (simp add: finishGeneric_fields)
  have 1: "abstract d = Some (clipText P t MAX_ABSTRACT_CHARS) \<and> fullText d = Some t"
    if h: "sourceType d = Pdf" "fetchReadableMirror P m1 = Some t" for t
  proof -
    have "f_fullText f = Some t" "f_abstract f = None"
      using f h st primary_fullText_pdf[of P title0 r0 m1 f] by simp_all
    moreover have "t \<noteq> []" using fetchReadableMirror_Some_nonempty[OF h(2)] .
    ultimately show ?thesis
      unfolding d by (simp add: finishGeneric_fields truthyStr_def)
  qed
  have 2: "fullText d = Some (clipText P (stripHtmlToText P html) MAX_FULL_TEXT_CHARS) \<and>
           abstract d = Some (clipText P (clipText P (stripHtmlToText P html) MAX_FULL_TEXT_CHARS)
                                MAX_ABSTRACT_CHARS)"
    if h: "sourceType d = Html \<or> sourceType d = Other" "page = Resolved r" "body r = Some html"
          "\<not> truthyStr (metaAbstract P html)" "stripHtmlToText P html \<noteq> []" for r html
  proof -
    have r: "r0 = r" using p h(2) by simp
    have "?st = Html \<or> ?st = Other" using h(1) st by simp
    from primary_fullText_html[OF this f] h(3) r
    have fh: "f = htmlFields P title0 html" by simp
    have ft: "f_fullText f = Some (clipText P (stripHtmlToText P html) MAX_FULL_TEXT_CHARS)"
      using h(5) by (simp add: fh htmlFields_fullText)
    have ne: "clipText P (stripHtmlToText P html) MAX_FULL_TEXT_CHARS \<noteq> []"
      using clipText_nonempty[OF h(5), of MAX_FULL_TEXT_CHARS P] by (simp add: MAX_FULL_TEXT_CHARS_def)
    have ab: "\<not> truthyStr (f_abstract f)"
      using h(4) by (simp add: fh htmlFields_abstract_truthy)
    show ?thesis
      unfolding d using ft ne ab by (simp add: finishGeneric_fields truthyStr_def)
  qed
  have 3: "clipText P t MAX_ABSTRACT_CHARS
              = (if length t \<le> 1500 then t else take 1499 t @ ellipsis P)" for t
    by (simp add: clipText_def MAX_ABSTRACT_CHARS_def)
  have 4: "mirrorFails m2 \<longrightarrow> ''abstract'' \<in> set (missingFields d)
           \<longrightarrow> ''fullText'' \<in> set (missingFields d)"
    unfolding d finish_missing by simp
  have 5: "''abstract'' \<in> set (missingFields d) \<and> ''fullText'' \<notin> set (missingFields d)
           \<longrightarrow> \<not> mirrorFails m2 \<and> fullText d = fetchReadableMirror P m2"
    unfolding d finish_missing by (auto simp: finishGeneric_fields)
  from 1 2 3 4 5 show ?thesis by blast
qed

lemma extract_pdfMirrorUp:
  "extractGenericSource testPlatform (firstFetch pdfMirrorUp) (pdfMirror pdfMirrorUp)
         (fallbackMirror pdfMirrorUp)
       = Inr \<lparr> e_title = ''paper.pdf'', authors = None, year = None,
               abstract = Some ''Title of the paper'', fullText = Some ''Title of the paper'',
               sourceType = Pdf, canonicalUrl = ''https://example.org/paper.pdf'',
               missingFields = [''authors'', ''year''] \<rparr>"
  by (simp add: pdfMirrorUp_def pdfThenRetry_def extract_paper_pdf mirror_examples finish_with_text)

text \<open>A pdf whose first mirror fetch gives a text: the abstract is that text.\<close>

theorem abstract_from_primary_full_text_witness:
  "extractGenericSource testPlatform (firstFetch pdfMirrorUp) (pdfMirror pdfMirrorUp)
         (fallbackMirror pdfMirrorUp)
       = Inr \<lparr> e_title = ''paper.pdf'', authors = None, year = None,
               abstract = Some ''Title of the paper'', fullText = Some ''Title of the paper'',
               sourceType = Pdf, canonicalUrl = ''https://example.org/paper.pdf'',
               missingFields = [''authors'', ''year''] \<rparr>
   \<and> fetchReadableMirror testPlatform (pdfMirror pdfMirrorUp) = Some ''Title of the paper''
   \<and> clipText testPlatform ''Title of the paper'' MAX_ABSTRACT_CHARS = ''Title of the paper''"
proof -
  note T = abstract_from_primary_full_text[OF extract_pdfMirrorUp]
  have m: "fetchReadableMirror testPlatform (pdfMirror pdfMirrorUp) = Some ''Title of the paper''"
    by (simp add: pdfMirrorUp_def pdfThenRetry_def mirror_examples)
  have "Some ''Title of the paper'' = Some (clipText testPlatform ''Title of the paper'' MAX_ABSTRACT_CHARS)"
    using T[THEN conjunct1, rule_format, of "''Title of the paper''"] m by simp
  then have c: "clipText testPlatform ''Title of the paper'' MAX_ABSTRACT_CHARS = ''Title of the paper''"
    by simp
  from extract_pdfMirrorUp m c show ?thesis by blast
qed

text \<open>
  The claim as it was stated: \<^verbatim>\<open>abstract\<close> is never missing while \<^verbatim>\<open>fullText\<close> is there. A pdf
  whose first mirror fetch fails and whose second succeeds, and a page without text that
  the mirror renders, both have the full text and no abstract.
\<close>

theorem abstract_missing_with_full_text_present:
  "extractGenericSource testPlatform (firstFetch pdfThenRetry) (pdfMirror pdfThenRetry)
         (fallbackMirror pdfThenRetry)
       = Inr \<lparr> e_title = ''paper.pdf'', authors = None, year = None, abstract = None,
               fullText = Some ''Title of the paper'', sourceType = Pdf,
               canonicalUrl = ''https://example.org/paper.pdf'',
               missingFields = [''authors'', ''year'', ''abstract''] \<rparr>
   \<and> extractGenericSource testPlatform (firstFetch emptyPage) (pdfMirror emptyPage)
         (fallbackMirror emptyPage)
       = Inr \<lparr> e_title = ''empty'', authors = None, year = None, abstract = None,
               fullText = Some ''Rendered text'', sourceType = Html,
               canonicalUrl = ''https://example.org/empty'',
               missingFields = [''authors'', ''year'', ''abstract''] \<rparr>"
  by (simp add: pdfThenRetry_def emptyPage_def extract_paper_pdf extract_empty_page
        mirror_examples finish_examples truthyStr_def)

end
